(* ===== verification/Airprobe_Prelude.thy ===== *)
theory Airprobe_Prelude
  imports Main "HOL-Library.Word" "HOL-Library.Sublist" "HOL-Library.Signed_Division"
begin

text \<open>
  Shared vocabulary of the development: the names of the machine types, the formatting
  conversions of the C library the program uses (\<open>%02X\<close>, \<open>%u\<close>, \<open>toupper\<close>,
  \<open>isprint\<close> in the "C" locale, \<open>snprintf\<close> with its buffer bound), generic lemmas on
  lists and strings, and the two contracts several components share: a codec
  (\<open>decode\<close> undoes \<open>encode\<close>) and a transition function with an invariant.
\<close>

unbundle bit_operations_syntax

section \<open>Types and fact collections\<close>

type_synonym u8 = "8 word"
type_synonym u16 = "16 word"
type_synonym bytes = "u8 list"

named_theorems wire_simps \<open>unfolding of the wire format constants\<close>
named_theorems fmt_simps \<open>lengths and shapes of formatted text\<close>
named_theorems frame_simps \<open>fields an operation leaves alone\<close>

section \<open>Conversions of the C library\<close>

definition hex_digit_upper :: "nat \<Rightarrow> char" where
  "hex_digit_upper n = ''0123456789ABCDEF'' ! n"

definition hex_digit_lower :: "nat \<Rightarrow> char" where
  "hex_digit_lower n = ''0123456789abcdef'' ! n"

text \<open>\<open>%02X\<close> and \<open>%02x\<close> of a byte, \<open>%04X\<close> of a 16-bit value.\<close>

definition fmt_02X :: "u8 \<Rightarrow> string" where
  "fmt_02X b = [hex_digit_upper (unat b div 16), hex_digit_upper (unat b mod 16)]"

definition fmt_02x :: "u8 \<Rightarrow> string" where
  "fmt_02x b = [hex_digit_lower (unat b div 16), hex_digit_lower (unat b mod 16)]"

definition fmt_04X :: "u16 \<Rightarrow> string" where
  "fmt_04X v = [hex_digit_upper (unat v div 4096), hex_digit_upper (unat v div 256 mod 16),
                hex_digit_upper (unat v div 16 mod 16), hex_digit_upper (unat v mod 16)]"

text \<open>\<open>%x\<close> of any natural number, and \<open>%u\<close>, \<open>%zu\<close>: minimal digits.\<close>

fun fmt_x :: "nat \<Rightarrow> string" where
  "fmt_x n = (if n < 16 then [hex_digit_lower n] else fmt_x (n div 16) @ [hex_digit_lower (n mod 16)])"

declare fmt_x.simps [simp del]

definition dec_digit :: "nat \<Rightarrow> char" where
  "dec_digit n = ''0123456789'' ! n"

fun fmt_u :: "nat \<Rightarrow> string" where
  "fmt_u n = (if n < 10 then [dec_digit n] else fmt_u (n div 10) @ [dec_digit (n mod 10)])"

declare fmt_u.simps [simp del]

definition fmt_d :: "int \<Rightarrow> string" where
  "fmt_d i = (if i < 0 then CHR ''-'' # fmt_u (nat (- i)) else fmt_u (nat i))"

text \<open>A minimum field width: \<open>%6lld\<close> pads with blanks, \<open>%04zx\<close> with zeros.\<close>

definition pad_left :: "char \<Rightarrow> nat \<Rightarrow> string \<Rightarrow> string" where
  "pad_left c k s = replicate (k - length s) c @ s"

definition fmt_04zx :: "nat \<Rightarrow> string" where
  "fmt_04zx n = pad_left (CHR ''0'') 4 (fmt_x n)"

text \<open>
  \<open>snprintf(buf, n, ...)\<close> followed by reading \<open>buf\<close> as a C string keeps at most
  \<open>n - 1\<close> characters.
\<close>

definition snprintf_c :: "nat \<Rightarrow> string \<Rightarrow> string" where
  "snprintf_c n s = take (n - 1) s"

text \<open>\<open>std::toupper\<close> and \<open>std::isprint\<close> in the "C" locale.\<close>

definition toupper_c :: "char \<Rightarrow> char" where
  "toupper_c c = (let n = (of_char c :: nat)
                  in if 97 \<le> n \<and> n \<le> 122 then char_of (n - 32) else c)"

definition isprint_c :: "u8 \<Rightarrow> bool" where
  "isprint_c b \<longleftrightarrow> 32 \<le> b \<and> b \<le> 126"

section \<open>Lemmas on formatted text\<close>

lemma length_fmt_02X [simp, fmt_simps]: "length (fmt_02X b) = 2"
  by (simp add: fmt_02X_def)

lemma length_fmt_02x [simp, fmt_simps]: "length (fmt_02x b) = 2"
  by (simp add: fmt_02x_def)

lemma length_fmt_04X [simp, fmt_simps]: "length (fmt_04X b) = 4"
  by (simp add: fmt_04X_def)

lemma snprintf_c_fits [fmt_simps]: "length s < n \<Longrightarrow> snprintf_c n s = s"
  by (simp add: snprintf_c_def)

lemma length_snprintf_c: "0 < n \<Longrightarrow> length (snprintf_c n s) < n"
  by (simp add: snprintf_c_def)

lemma length_fmt_u_le: "n < 10 ^ Suc k \<Longrightarrow> length (fmt_u n) \<le> Suc k"
proof (induction k arbitrary: n)
  case 0
  then show ?case by (simp add: fmt_u.simps [of n])
next
  case (Suc k)
  show ?case
  proof (cases "n < 10")
    case True
    then show ?thesis by (simp add: fmt_u.simps [of n])
  next
    case False
    have "n div 10 < 10 ^ Suc k" using Suc.prems by (simp add: less_mult_imp_div_less)
    from Suc.IH [OF this] False show ?thesis by (simp add: fmt_u.simps [of n])
  qed
qed

lemma length_fmt_u_byte [fmt_simps]: "length (fmt_u (unat (b :: u8))) \<le> 3"
proof -
  have "unat b < 256" using unsigned_less [of b] by simp
  then have "unat b < 10 ^ Suc 2" by simp
  then show ?thesis using length_fmt_u_le by fastforce
qed

lemma length_fmt_x_le: "n < 16 ^ Suc k \<Longrightarrow> length (fmt_x n) \<le> Suc k"
proof (induction k arbitrary: n)
  case 0
  then show ?case by (simp add: fmt_x.simps [of n])
next
  case (Suc k)
  show ?case
  proof (cases "n < 16")
    case True
    then show ?thesis by (simp add: fmt_x.simps [of n])
  next
    case False
    have "n div 16 < 16 ^ Suc k" using Suc.prems by (simp add: less_mult_imp_div_less)
    from Suc.IH [OF this] False show ?thesis by (simp add: fmt_x.simps [of n])
  qed
qed

lemma length_fmt_04zx [fmt_simps]: "n < 16 ^ 4 \<Longrightarrow> length (fmt_04zx n) = 4"
  using length_fmt_x_le [of n 3] by (simp add: fmt_04zx_def pad_left_def)

lemma toupper_c_idem [simp]: "toupper_c (toupper_c c) = toupper_c c"
  by (auto simp: toupper_c_def Let_def)

section \<open>Reads that can go out of bounds\<close>

text \<open>
  \<open>std::span::operator[]\<close> does not check its index: a read past the end is undefined
  behaviour. A read is modelled as a sum, so that a theorem can say it never happens.
\<close>

datatype access_error = OutOfBounds nat

definition span_at :: "bytes \<Rightarrow> nat \<Rightarrow> access_error + u8" where
  "span_at p i = (if i < length p then Inr (p ! i) else Inl (OutOfBounds i))"

definition and_then :: "'e + 'a \<Rightarrow> ('a \<Rightarrow> 'e + 'b) \<Rightarrow> 'e + 'b" where
  "and_then m f = (case m of Inl e \<Rightarrow> Inl e | Inr a \<Rightarrow> f a)"

lemma and_then_simps [simp]:
  "and_then (Inl e) f = Inl e"
  "and_then (Inr a) f = f a"
  by (simp_all add: and_then_def)

lemma span_at_in [simp]: "i < length p \<Longrightarrow> span_at p i = Inr (p ! i)"
  by (simp add: span_at_def)

section \<open>Lists\<close>

lemma drop_eq_5:
  "k + 5 \<le> length p \<Longrightarrow>
   drop k p = p ! k # p ! (k + 1) # p ! (k + 2) # p ! (k + 3) # p ! (k + 4) # drop (k + 5) p"
  using Cons_nth_drop_Suc [of k p] Cons_nth_drop_Suc [of "k + 1" p] Cons_nth_drop_Suc [of "k + 2" p]
    Cons_nth_drop_Suc [of "k + 3" p] Cons_nth_drop_Suc [of "k + 4" p]
  by (simp add: eval_nat_numeral)

lemma prefix_snocI: "prefix (xs @ ys) zs \<Longrightarrow> prefix xs zs"
  by (metis append_prefixD)

lemma drop_append_le: "k \<le> length xs \<Longrightarrow> drop k (xs @ ys) = drop k xs @ ys"
  by simp

section \<open>Contracts several components share\<close>

subsection \<open>Codecs\<close>

text \<open>
  A pair of functions where decoding undoes encoding. The clients only need that two
  values with the same encoding are the same.
\<close>

locale codec =
  fixes encode :: "'a \<Rightarrow> 'b"
    and decode :: "'b \<Rightarrow> 'a option"
    and valid :: "'a \<Rightarrow> bool"
  assumes decode_encode: "valid x \<Longrightarrow> decode (encode x) = Some x"
begin

lemma encode_inject: "valid x \<Longrightarrow> valid y \<Longrightarrow> encode x = encode y \<longleftrightarrow> x = y"
  by (metis decode_encode option.inject)

lemma encode_distinguishes: "valid x \<Longrightarrow> valid y \<Longrightarrow> x \<noteq> y \<Longrightarrow> encode x \<noteq> encode y"
  by (simp add: encode_inject)

end

subsection \<open>Transition functions with an invariant\<close>

text \<open>
  A component that is driven by a sequence of events: a handler, and what every call of it
  keeps. The client's lemma is that any sequence of events keeps it.
\<close>

locale event_handler =
  fixes handle :: "'e \<Rightarrow> 's \<Rightarrow> 's"
    and inv :: "'s \<Rightarrow> bool"
  assumes handle_inv: "inv s \<Longrightarrow> inv (handle e s)"
begin

lemma fold_inv: "inv s \<Longrightarrow> inv (fold handle es s)"
  by (induction es arbitrary: s) (auto intro: handle_inv)

lemma every_prefix_inv: "inv s \<Longrightarrow> prefix ds es \<Longrightarrow> inv (fold handle ds s)"
  by (rule fold_inv)

end

text \<open>The same where the events obey a rule of their sender.\<close>

locale guarded_handler =
  fixes handle :: "'e \<Rightarrow> 's \<Rightarrow> 's"
    and inv :: "'s \<Rightarrow> bool"
    and allowed :: "'e \<Rightarrow> bool"
  assumes handle_allowed: "allowed e \<Longrightarrow> inv s \<Longrightarrow> inv (handle e s)"
begin

lemma fold_allowed: "list_all allowed es \<Longrightarrow> inv s \<Longrightarrow> inv (fold handle es s)"
  by (induction es arbitrary: s) (auto intro: handle_allowed)

end

sublocale event_handler \<subseteq> any: guarded_handler handle inv "\<lambda>_. True"
  by unfold_locales (rule handle_inv)

end
