(* ===== verification/Aap_Protocol.thy ===== *)
theory Aap_Protocol
  imports Airprobe_Prelude
begin

text \<open>
  The AAP wire constants and the packet labeller: \<open>lib/include/airprobe/aap_protocol.h\<close> and
  \<open>lib/src/aap_protocol.cpp\<close>. A packet (\<open>std::span<const uint8_t>\<close>) is a list of bytes.
  The lemmas show that the header tests exclude each other, that the opcode is read
  little-endian and only when the packet is long enough, that no label is cut by its
  96-byte buffer, and that the two one-line hex forms can be read back.
\<close>

section \<open>Wire constants\<close>

definition kHandshake :: bytes where
  "kHandshake = [0x00, 0x00, 0x04, 0x00, 0x01, 0x00, 0x02, 0x00,
                 0x00, 0x00, 0x00, 0x00, 0x00, 0x00, 0x00, 0x00]"

definition kHostCapsD7 :: bytes where
  "kHostCapsD7 = [0x04, 0x00, 0x04, 0x00, 0x4D, 0x00, 0xD7, 0x00,
                  0x00, 0x00, 0x00, 0x00, 0x00, 0x00]"

definition kHostCapsFF :: bytes where
  "kHostCapsFF = [0x04, 0x00, 0x04, 0x00, 0x4D, 0x00, 0xFF, 0x00,
                  0x00, 0x00, 0x00, 0x00, 0x00, 0x00]"

definition kRequestNotify5 :: bytes where
  "kRequestNotify5 = [0x04, 0x00, 0x04, 0x00, 0x0F, 0x00, 0xFF, 0xFF, 0xFF, 0xFF, 0xFF]"

definition kRequestNotify4FF :: bytes where
  "kRequestNotify4FF = [0x04, 0x00, 0x04, 0x00, 0x0F, 0x00, 0xFF, 0xFF, 0xFF, 0xFF]"

definition kRequestNotify4FE :: bytes where
  "kRequestNotify4FE = [0x04, 0x00, 0x04, 0x00, 0x0F, 0x00, 0xFF, 0xFF, 0xFE, 0xFF]"

definition kOpBattery :: u16 where
  "kOpBattery = 0x0004"

definition kOpEarDetection :: u16 where
  "kOpEarDetection = 0x0006"

definition kOpControl :: u16 where
  "kOpControl = 0x0009"

definition kOpNotifyReq :: u16 where
  "kOpNotifyReq = 0x000F"

definition kOpDeviceInfo :: u16 where
  "kOpDeviceInfo = 0x001D"

definition kOpFeaturesAck :: u16 where
  "kOpFeaturesAck = 0x002B"

definition kOpHostCaps :: u16 where
  "kOpHostCaps = 0x004D"

text \<open>The battery components as bytes; the parser has an enumeration of its own for them.\<close>

definition kBatteryCase :: u8 where
  "kBatteryCase = 0x08"

definition kBatteryLeft :: u8 where
  "kBatteryLeft = 0x04"

definition kBatteryRight :: u8 where
  "kBatteryRight = 0x02"

definition kStdHeader :: bytes where
  "kStdHeader = [0x04, 0x00, 0x04, 0x00]"

definition kAckHeader :: bytes where
  "kAckHeader = [0x01, 0x00, 0x04, 0x00]"

lemmas packet_constants = kHandshake_def kHostCapsD7_def kHostCapsFF_def
  kRequestNotify5_def kRequestNotify4FF_def kRequestNotify4FE_def

declare kOpBattery_def [wire_simps] kOpControl_def [wire_simps] kOpFeaturesAck_def [wire_simps]
  kStdHeader_def [wire_simps] kAckHeader_def [wire_simps]

section \<open>Headers and opcodes\<close>

text \<open>The loop of \<open>starts_with\<close> compares the four header bytes after the length test.\<close>

definition starts_with :: "bytes \<Rightarrow> bytes \<Rightarrow> bool" where
  "starts_with p h \<longleftrightarrow> \<not> length p < length h \<and> list_all (\<lambda>i. p ! i = h ! i) [0..<length h]"

definition has_std_header :: "bytes \<Rightarrow> bool" where
  "has_std_header p = starts_with p kStdHeader"

definition is_handshake_ack :: "bytes \<Rightarrow> bool" where
  "is_handshake_ack p = starts_with p kAckHeader"

definition opcode_of :: "bytes \<Rightarrow> u16" where
  "opcode_of p = (if \<not> has_std_header p \<or> length p < 6 then 0xFFFF
                  else ucast (p ! 4) OR push_bit 8 (ucast (p ! 5)))"

section \<open>Names\<close>

text \<open>The two \<open>switch\<close> statements are tables; no match is the null pointer.\<close>

definition opcode_table :: "(u16 \<times> string) list" where
  "opcode_table =
  [(0x0001, ''unknown-0001''),
   (0x0004, ''battery''),
   (0x0006, ''ear-detection''),
   (0x0009, ''control''),
   (0x000D, ''audio-source-req''),
   (0x000E, ''audio-source-resp''),
   (0x000F, ''notification-register''),
   (0x0010, ''smart-routing-relay''),
   (0x0011, ''smart-routing-response''),
   (0x0014, ''connected-device-mac''),
   (0x0017, ''multi-purpose-0017''),
   (0x0019, ''stem-press''),
   (0x001B, ''timestamp''),
   (0x001D, ''device-info''),
   (0x001E, ''rename-device''),
   (0x0022, ''unknown-0022''),
   (0x0029, ''host-capabilities-alt''),
   (0x002B, ''features-ack/paired-devices''),
   (0x002D, ''connected-devices-req''),
   (0x002E, ''connected-devices-list''),
   (0x0030, ''ble-keys-req''),
   (0x0031, ''ble-keys-response''),
   (0x004B, ''conversation-awareness''),
   (0x004D, ''host-capabilities''),
   (0x004F, ''information-req/res''),
   (0x0053, ''eq-data'')]"

definition opcode_name :: "u16 \<Rightarrow> string option" where
  "opcode_name op = map_of opcode_table op"

text \<open>The constants of the header and the table agree, and the packets carry their opcodes.\<close>

lemma opcode_constants_named:
  "opcode_name kOpBattery = Some ''battery''" "opcode_name kOpEarDetection = Some ''ear-detection''"
  "opcode_name kOpControl = Some ''control''" "opcode_name kOpNotifyReq = Some ''notification-register''"
  "opcode_name kOpDeviceInfo = Some ''device-info''"
  "opcode_name kOpFeaturesAck = Some ''features-ack/paired-devices''"
  "opcode_name kOpHostCaps = Some ''host-capabilities''"
  by code_simp+

lemma packet_opcodes:
  "opcode_of kHostCapsD7 = kOpHostCaps" "opcode_of kHostCapsFF = kOpHostCaps"
  "opcode_of kRequestNotify5 = kOpNotifyReq" "opcode_of kRequestNotify4FF = kOpNotifyReq"
  "opcode_of kRequestNotify4FE = kOpNotifyReq" "\<not> has_std_header kHandshake"
  by code_simp+

definition control_table :: "(u8 \<times> string) list" where
  "control_table =
  [(0x01, ''mic-mode''),
   (0x05, ''button-send-mode''),
   (0x06, ''owns-connection''),
   (0x0A, ''ear-detection''),
   (0x0D, ''listening-mode''),
   (0x12, ''voice-trigger-siri''),
   (0x14, ''single-click-mode''),
   (0x15, ''double-click-mode''),
   (0x16, ''click-hold-mode''),
   (0x17, ''double-click-interval''),
   (0x18, ''click-hold-interval''),
   (0x1A, ''listening-mode-configs''),
   (0x1B, ''one-bud-anc-mode''),
   (0x1C, ''crown-rotation-direction''),
   (0x1E, ''auto-answer-mode''),
   (0x1F, ''chime-volume''),
   (0x20, ''connect-automatically''),
   (0x23, ''volume-swipe-interval''),
   (0x24, ''call-management-config''),
   (0x25, ''volume-swipe-mode''),
   (0x26, ''adaptive-volume-config''),
   (0x27, ''software-mute-config''),
   (0x28, ''conversation-detect''),
   (0x29, ''ssl''),
   (0x2C, ''hearing-aid-enrolled/enabled''),
   (0x2E, ''auto-anc-strength''),
   (0x2F, ''hps-gain-swipe''),
   (0x30, ''hrm-state''),
   (0x31, ''in-case-tone-config''),
   (0x32, ''siri-multitone-config''),
   (0x33, ''hearing-assist-config''),
   (0x34, ''allow-off-listening-mode''),
   (0x35, ''sleep-detection-config''),
   (0x36, ''allow-auto-connect''),
   (0x37, ''ppe-toggle-config''),
   (0x38, ''ppe-cap-level-config''),
   (0x39, ''raw-gestures-config''),
   (0x3A, ''temporary-pairing-config''),
   (0x3B, ''dynamic-end-of-charge''),
   (0x3C, ''system-siri-message-config''),
   (0x3D, ''hearing-aid-generic-config''),
   (0x3E, ''uplink-eq-bud-config''),
   (0x3F, ''uplink-eq-source-config''),
   (0x40, ''in-case-tone-volume''),
   (0x41, ''disable-button-input'')]"

definition control_name :: "u8 \<Rightarrow> string option" where
  "control_name i = map_of control_table i"

section \<open>Labels and dumps\<close>

definition opcode_label :: "bytes \<Rightarrow> string" where
  "opcode_label packet =
    (if is_handshake_ack packet then ''handshake-ack''
     else if \<not> has_std_header packet then ''non-standard-header''
     else if length packet < 6 then ''truncated''
     else let op = opcode_of packet in
       if op = kOpControl then
         (if length packet < 8 then ''control (truncated)''
          else case control_name (packet ! 6) of
                 Some name \<Rightarrow> snprintf_c 96 (''control: '' @ name @ '' = 0x'' @ fmt_02X (packet ! 7))
               | None \<Rightarrow> snprintf_c 96 (''control: id 0x'' @ fmt_02X (packet ! 6) @ '' ? = 0x''
                                          @ fmt_02X (packet ! 7)))
       else if op = kOpBattery \<and> 7 \<le> length packet then
         snprintf_c 96 (''*** BATTERY *** (claims '' @ fmt_u (unat (packet ! 6)) @ '' component''
                        @ (if packet ! 6 = 1 then '''' else ''s'') @ '', ''
                        @ fmt_u (length packet) @ '' bytes)'')
       else case opcode_name op of
              Some name \<Rightarrow> name
            | None \<Rightarrow> snprintf_c 96 (''opcode 0x'' @ fmt_04X op @ '' ?''))"

definition hexline :: "bytes \<Rightarrow> string" where
  "hexline data = concat (map (\<lambda>i. (if i \<noteq> 0 then '' '' else '''') @ snprintf_c 8 (fmt_02X (data ! i)))
                              [0..<length data])"

definition hexcompact :: "bytes \<Rightarrow> string" where
  "hexcompact data = concat (map (\<lambda>b. snprintf_c 4 (fmt_02x b)) data)"

text \<open>
  One row of the dump: the indent, the offset, sixteen columns (blank past the end, an
  extra blank after column 7) and the ASCII gutter. The outer loop advances by 16.
\<close>

definition hexdump_cell :: "bytes \<Rightarrow> nat \<Rightarrow> nat \<Rightarrow> string" where
  "hexdump_cell data off i =
     (if off + i < length data then snprintf_c 32 (fmt_02X (data ! (off + i)) @ '' '') else ''   '')
     @ (if i = 7 then '' '' else '''')"

definition hexdump_glyph :: "bytes \<Rightarrow> nat \<Rightarrow> nat \<Rightarrow> char" where
  "hexdump_glyph data off i =
     (let c = data ! (off + i) in if isprint_c c then char_of (unat c) else CHR ''.'')"

definition hexdump_row :: "bytes \<Rightarrow> string \<Rightarrow> nat \<Rightarrow> string" where
  "hexdump_row data indent off =
     indent @ snprintf_c 32 (fmt_04zx off @ ''  '')
     @ concat (map (hexdump_cell data off) [0..<16])
     @ '' |'' @ map (hexdump_glyph data off) (takeWhile (\<lambda>i. off + i < length data) [0..<16])
     @ ''|'' @ [CHR 0x0A]"

function hexdump_from :: "bytes \<Rightarrow> string \<Rightarrow> nat \<Rightarrow> string" where
  "hexdump_from data indent off =
     (if off < length data then hexdump_row data indent off @ hexdump_from data indent (off + 16)
      else [])"
  by pat_completeness auto
termination
  by (relation "measure (\<lambda>(data, indent, off). length data - off)") auto

declare hexdump_from.simps [simp del]

definition hexdump :: "bytes \<Rightarrow> string \<Rightarrow> string" where
  "hexdump data indent = hexdump_from data indent 0"

section \<open>Headers and opcodes: lemmas\<close>

lemma starts_with_prefix: "starts_with p h \<longleftrightarrow> prefix h p"
proof
  assume a: "starts_with p h"
  then have "take (length h) p = h"
    by (intro nth_equalityI) (auto simp: starts_with_def list_all_iff)
  then show "prefix h p" by (metis take_is_prefix)
next
  assume "prefix h p"
  then show "starts_with p h"
    by (auto simp: starts_with_def list_all_iff prefix_def nth_append)
qed

lemma has_std_header_iff: "has_std_header p \<longleftrightarrow> (\<exists>r. p = [0x04, 0x00, 0x04, 0x00] @ r)"
  by (simp add: has_std_header_def starts_with_prefix prefix_def kStdHeader_def)

lemma is_handshake_ack_iff: "is_handshake_ack p \<longleftrightarrow> (\<exists>r. p = [0x01, 0x00, 0x04, 0x00] @ r)"
  by (simp add: is_handshake_ack_def starts_with_prefix prefix_def kAckHeader_def)

lemma headers_exclusive: "has_std_header p \<Longrightarrow> \<not> is_handshake_ack p"
  by (auto simp: has_std_header_iff is_handshake_ack_iff)

lemma std_header_Cons [simp]: "has_std_header (0x04 # 0x00 # 0x04 # 0x00 # r)"
  by (simp add: has_std_header_iff)

lemma opcode_of_Cons [simp]:
  "opcode_of (0x04 # 0x00 # 0x04 # 0x00 # lo # hi # r) = ucast lo OR push_bit 8 (ucast hi)"
  by (simp add: opcode_of_def)

lemma ack_has_no_opcode: "is_handshake_ack p \<Longrightarrow> opcode_of p = 0xFFFF"
  using headers_exclusive by (auto simp: opcode_of_def)

lemma unat_le_word:
  fixes lo hi :: u8
  shows "unat (ucast lo OR push_bit 8 (ucast hi) :: u16) = unat lo + 256 * unat hi"
proof -
  have disj: "ucast lo AND push_bit 8 (ucast hi) = (0 :: u16)"
    by (rule bit_word_eqI) (auto simp: bit_simps dest: bit_imp_le_length)
  have lob: "unat lo < 256" and hib: "unat hi < 256"
    using unsigned_less [of lo] unsigned_less [of hi] by simp_all
  have lo: "unat (ucast lo :: u16) = unat lo" and hi8: "unat (ucast hi :: u16) = unat hi"
    using lob hib by (simp_all add: unsigned_ucast_eq take_bit_nat_eq_self)
  have hi: "unat (push_bit 8 (ucast hi) :: u16) = 256 * unat hi"
    using hib hi8 by (simp add: push_bit_eq_mult unat_word_ariths)
  have "ucast lo OR push_bit 8 (ucast hi) = (ucast lo + push_bit 8 (ucast hi) :: u16)"
    using disj by (simp add: disjunctive_add_eq_or)
  then show ?thesis
    using lo hi lob hib by (simp add: unat_word_ariths)
qed

text \<open>The opcode bytes of a 16-bit value, low byte first: what the pods put on the wire.\<close>

definition opcode_bytes :: "u16 \<Rightarrow> bytes" where
  "opcode_bytes op = [ucast op, ucast (drop_bit 8 op)]"

lemma opcode_bytes_le: "ucast (ucast op :: u8) OR push_bit 8 (ucast (ucast (drop_bit 8 op) :: u8)) = (op :: u16)"
  by (rule bit_word_eqI) (auto simp: bit_simps)

lemma opcode_of_opcode_bytes: "opcode_of (kStdHeader @ opcode_bytes op @ r) = op"
  by (simp add: kStdHeader_def opcode_bytes_def opcode_bytes_le)

section \<open>The labeller\<close>

text \<open>
  What a label says, without the buffer it is printed into: the packet's class, and the
  text of each class. The lemma is that the 96-byte buffer never cuts a label.
\<close>

datatype packet_class =
    HandshakeAck
  | NonStandardHeader
  | Truncated
  | ControlTruncated
  | Control string u8
  | ControlUnnamed u8 u8
  | Battery u8 nat
  | Named string
  | Unnamed u16

definition classify :: "bytes \<Rightarrow> packet_class" where
  "classify p =
    (if is_handshake_ack p then HandshakeAck
     else if \<not> has_std_header p then NonStandardHeader
     else if length p < 6 then Truncated
     else if opcode_of p = kOpControl then
       (if length p < 8 then ControlTruncated
        else case control_name (p ! 6) of
               Some name \<Rightarrow> Control name (p ! 7)
             | None \<Rightarrow> ControlUnnamed (p ! 6) (p ! 7))
     else if opcode_of p = kOpBattery \<and> 7 \<le> length p then Battery (p ! 6) (length p)
     else case opcode_name (opcode_of p) of Some name \<Rightarrow> Named name | None \<Rightarrow> Unnamed (opcode_of p))"

fun class_text :: "packet_class \<Rightarrow> string" where
  "class_text HandshakeAck = ''handshake-ack''"
| "class_text NonStandardHeader = ''non-standard-header''"
| "class_text Truncated = ''truncated''"
| "class_text ControlTruncated = ''control (truncated)''"
| "class_text (Control name v) = ''control: '' @ name @ '' = 0x'' @ fmt_02X v"
| "class_text (ControlUnnamed i v) = ''control: id 0x'' @ fmt_02X i @ '' ? = 0x'' @ fmt_02X v"
| "class_text (Battery n len) =
     ''*** BATTERY *** (claims '' @ fmt_u (unat n) @ '' component'' @ (if n = 1 then '''' else ''s'')
     @ '', '' @ fmt_u len @ '' bytes)''"
| "class_text (Named name) = name"
| "class_text (Unnamed op) = ''opcode 0x'' @ fmt_04X op @ '' ?''"

lemma control_name_short: "control_name i = Some name \<Longrightarrow> length name \<le> 28"
proof -
  assume "control_name i = Some name"
  then have "(i, name) \<in> set control_table" by (simp add: control_name_def map_of_SomeD)
  moreover have "list_all (\<lambda>(i, n). length n \<le> 28) control_table" by code_simp
  ultimately show ?thesis by (auto simp: list_all_iff)
qed

lemma battery_label_short:
  assumes "len < 10 ^ 20"
  shows "length (class_text (Battery n len)) < 96"
proof -
  have "len < 10 ^ Suc 19" using assms by simp
  then have "length (fmt_u len) \<le> 20" using length_fmt_u_le by fastforce
  moreover have "length (fmt_u (unat n)) \<le> 3" by (rule length_fmt_u_byte)
  ultimately show ?thesis by (cases "n = 1") (simp_all add: fmt_u.simps [of "Suc 0"])
qed

lemma opcode_label_classify:
  assumes "length p < 10 ^ 20"
  shows "opcode_label p = class_text (classify p)"
  using battery_label_short [OF assms, of "p ! 6"]
  by (auto simp: opcode_label_def classify_def Let_def snprintf_c_fits split: option.splits
           dest: control_name_short)

lemma opcode_table_distinct: "distinct (map fst opcode_table)"
  by code_simp

lemma control_table_distinct: "distinct (map fst control_table)"
  by code_simp

section \<open>The one-line hex forms can be read back\<close>

text \<open>
  \<open>hexcompact\<close> is written to the capture file for machine re-readability; \<open>hexline\<close> goes
  to the log. The readers below are specifications: what a program that re-reads the text
  has to do. The two forms are the two instances of the \<open>codec\<close> contract.
\<close>

definition unhex :: "char \<Rightarrow> nat option" where
  "unhex c = map_of (zip ''0123456789abcdef'' [0..<16] @ zip ''0123456789ABCDEF'' [0..<16]) c"

definition byte_of_hex :: "char \<Rightarrow> char \<Rightarrow> u8 option" where
  "byte_of_hex h l = Option.bind (unhex h) (\<lambda>a. map_option (\<lambda>b. of_nat (16 * a + b)) (unhex l))"

fun read_hexcompact :: "string \<Rightarrow> bytes option" where
  "read_hexcompact [] = Some []"
| "read_hexcompact [c] = None"
| "read_hexcompact (h # l # cs) =
     Option.bind (byte_of_hex h l) (\<lambda>b. map_option ((#) b) (read_hexcompact cs))"

fun read_hexline :: "string \<Rightarrow> bytes option" where
  "read_hexline [] = Some []"
| "read_hexline [c] = None"
| "read_hexline [h, l] = map_option (\<lambda>b. [b]) (byte_of_hex h l)"
| "read_hexline (h # l # c # cs) =
     (if c = CHR '' '' \<and> cs \<noteq> []
      then Option.bind (byte_of_hex h l) (\<lambda>b. map_option ((#) b) (read_hexline cs)) else None)"

lemma unhex_digits:
  assumes "n < 16"
  shows "unhex (hex_digit_lower n) = Some n" and "unhex (hex_digit_upper n) = Some n"
proof -
  have "list_all (\<lambda>n. unhex (hex_digit_lower n) = Some n \<and> unhex (hex_digit_upper n) = Some n) [0..<16]"
    by code_simp
  with assms show "unhex (hex_digit_lower n) = Some n" and "unhex (hex_digit_upper n) = Some n"
    by (auto simp: list_all_iff)
qed

lemma byte_of_nibbles: "of_nat (16 * (unat b div 16) + unat b mod 16) = (b :: u8)"
  by (simp only: mult_div_mod_eq) simp

lemma byte_of_digits:
  shows "byte_of_hex (hex_digit_lower (unat b div 16)) (hex_digit_lower (unat b mod 16)) = Some b"
    and "byte_of_hex (hex_digit_upper (unat b div 16)) (hex_digit_upper (unat b mod 16)) = Some b"
proof -
  have "unat b < 256" using unsigned_less [of b] by simp
  then have "unat b div 16 < 16" by (simp add: less_mult_imp_div_less)
  then show "byte_of_hex (hex_digit_lower (unat b div 16)) (hex_digit_lower (unat b mod 16)) = Some b"
    and "byte_of_hex (hex_digit_upper (unat b div 16)) (hex_digit_upper (unat b mod 16)) = Some b"
    using byte_of_nibbles [of b] by (simp_all add: byte_of_hex_def unhex_digits del: of_nat_add of_nat_mult)
qed

lemma hexcompact_Nil [simp]: "hexcompact [] = []"
  by (simp add: hexcompact_def)

lemma hexcompact_Cons [simp]: "hexcompact (b # bs) = fmt_02x b @ hexcompact bs"
  by (simp add: hexcompact_def snprintf_c_fits)

text \<open>The index loop of \<open>hexline\<close> puts one blank between neighbours and none at the ends.\<close>

fun spaced :: "bytes \<Rightarrow> string" where
  "spaced [] = []"
| "spaced [b] = fmt_02X b"
| "spaced (b # bs) = fmt_02X b @ '' '' @ spaced bs"

lemma hexline_snoc:
  "hexline (bs @ [b]) = hexline bs @ (if bs = [] then '''' else '' '') @ fmt_02X b"
proof -
  have m: "map (\<lambda>i. (if i \<noteq> 0 then '' '' else '''') @ snprintf_c 8 (fmt_02X ((bs @ [b]) ! i))) [0..<length bs]
      = map (\<lambda>i. (if i \<noteq> 0 then '' '' else '''') @ snprintf_c 8 (fmt_02X (bs ! i))) [0..<length bs]"
    by (rule map_cong) (simp_all add: nth_append)
  show ?thesis
    unfolding hexline_def length_append_singleton upt_Suc_append [OF le0] map_append concat_append m
    by (simp add: snprintf_c_fits)
qed

lemma spaced_Cons: "spaced (b # bs) = fmt_02X b @ concat (map (\<lambda>x. '' '' @ fmt_02X x) bs)"
  by (induction bs arbitrary: b) simp_all

lemma spaced_snoc: "spaced (bs @ [b]) = spaced bs @ (if bs = [] then '''' else '' '') @ fmt_02X b"
  by (cases bs) (simp_all add: spaced_Cons)

lemma hexline_spaced: "hexline bs = spaced bs"
proof (induction bs rule: rev_induct)
  case Nil
  then show ?case by (simp add: hexline_def)
next
  case (snoc b bs)
  then show ?case by (simp add: hexline_snoc spaced_snoc)
qed

interpretation compact: codec hexcompact read_hexcompact "\<lambda>_. True"
proof
  fix bs :: bytes
  show "read_hexcompact (hexcompact bs) = Some bs"
    by (induction bs) (simp_all add: fmt_02x_def byte_of_digits)
qed

lemma spaced_nonempty: "bs \<noteq> [] \<Longrightarrow> spaced bs \<noteq> []"
  by (cases bs) (simp_all add: spaced_Cons fmt_02X_def)

interpretation line: codec hexline read_hexline "\<lambda>_. True"
proof
  fix bs :: bytes
  show "read_hexline (hexline bs) = Some bs"
    unfolding hexline_spaced
    by (induction bs rule: spaced.induct)
      (simp_all add: fmt_02X_def byte_of_digits spaced_nonempty)
qed

lemma length_hexcompact: "length (hexcompact bs) = 2 * length bs"
  by (induction bs) simp_all

section \<open>The hex dump row by row\<close>

text \<open>
  The reference: the data cut into rows of sixteen, each printed from its own bytes only.
\<close>

fun rows16 :: "bytes \<Rightarrow> bytes list" where
  "rows16 [] = []"
| "rows16 (b # bs) = take 16 (b # bs) # rows16 (drop 16 (b # bs))"

definition row_cell :: "bytes \<Rightarrow> nat \<Rightarrow> string" where
  "row_cell r i = (if i < length r then fmt_02X (r ! i) @ '' '' else ''   '') @ (if i = 7 then '' '' else '''')"

definition glyph :: "u8 \<Rightarrow> char" where
  "glyph c = (if isprint_c c then char_of (unat c) else CHR ''.'')"

definition row_text :: "string \<Rightarrow> nat \<Rightarrow> bytes \<Rightarrow> string" where
  "row_text indent off r = indent @ fmt_04zx off @ ''  '' @ concat (map (row_cell r) [0..<16])
     @ '' |'' @ map glyph r @ ''|'' @ [CHR 0x0A]"

fun row_texts :: "string \<Rightarrow> nat \<Rightarrow> bytes list \<Rightarrow> string" where
  "row_texts indent off [] = []"
| "row_texts indent off (r # rs) = row_text indent off r @ row_texts indent (off + 16) rs"

lemma takeWhile_upt: "takeWhile (\<lambda>i. off + i < n) [0..<m] = [0..<min m (n - off)]"
proof (induction m)
  case 0
  then show ?case by simp
next
  case (Suc m)
  have "takeWhile (\<lambda>i. off + i < n) [0..<Suc m]
      = (if m \<le> n - off then [0..<m] @ takeWhile (\<lambda>i. off + i < n) [m] else [0..<n - off])"
  proof (cases "m \<le> n - off")
    case True
    then have "\<forall>i \<in> set [0..<m]. off + i < n" by auto
    then have "takeWhile (\<lambda>i. off + i < n) ([0..<m] @ [m]) = [0..<m] @ takeWhile (\<lambda>i. off + i < n) [m]"
      by (intro takeWhile_append2) blast
    with True show ?thesis by (simp only: upt_Suc_append [OF le0] if_True)
  next
    case False
    then have "\<exists>i \<in> set [0..<m]. \<not> off + i < n" by (auto intro!: bexI [of _ "n - off"])
    with False Suc show ?thesis by (auto simp: takeWhile_append1)
  qed
  moreover have "min (Suc m) (n - off) = (if Suc m \<le> n - off then Suc m else if m \<le> n - off then m else n - off)"
    by auto
  ultimately show ?case by auto
qed

lemma hexdump_cells:
  assumes "off < length data"
  shows "map (hexdump_cell data off) [0..<16] = map (row_cell (take 16 (drop off data))) [0..<16]"
proof (rule map_cong [OF refl])
  fix i assume "i \<in> set [0..<(16::nat)]"
  with assms show "hexdump_cell data off i = row_cell (take 16 (drop off data)) i"
    by (auto simp: hexdump_cell_def row_cell_def snprintf_c_fits less_diff_conv2 add.commute)
qed

lemma hexdump_glyphs:
  "map (hexdump_glyph data off) (takeWhile (\<lambda>i. off + i < length data) [0..<16])
   = map glyph (take 16 (drop off data))"
proof (rule nth_equalityI)
  fix i assume "i < length (map (hexdump_glyph data off)
    (takeWhile (\<lambda>i. off + i < length data) [0..<16]))"
  then have "i < 16" and "i < length data - off" by (simp_all add: takeWhile_upt)
  then have "off + i < length data" by linarith
  with \<open>i < 16\<close>
  show "map (hexdump_glyph data off) (takeWhile (\<lambda>i. off + i < length data) [0..<16]) ! i
      = map glyph (take 16 (drop off data)) ! i"
    by (simp add: takeWhile_upt hexdump_glyph_def glyph_def Let_def)
qed (simp add: takeWhile_upt min.commute)

lemma offset_fits: "off < 16 ^ 16 \<Longrightarrow> length (fmt_04zx off @ ''  '') < 32"
  using length_fmt_x_le [of off 15] by (simp add: fmt_04zx_def pad_left_def)

lemma hexdump_row_text:
  "off < length data \<Longrightarrow> off < 16 ^ 16 \<Longrightarrow>
   hexdump_row data indent off = row_text indent off (take 16 (drop off data))"
  using offset_fits [of off] snprintf_c_fits [of "fmt_04zx off @ ''  ''" 32]
  by (simp only: hexdump_row_def row_text_def hexdump_cells hexdump_glyphs append.assoc)

lemma rows16_step: "bs \<noteq> [] \<Longrightarrow> rows16 bs = take 16 bs # rows16 (drop 16 bs)"
  by (cases bs) simp_all

lemma hexdump_from_rows:
  "length data \<le> 16 ^ 16 \<Longrightarrow>
   hexdump_from data indent off = row_texts indent off (rows16 (drop off data))"
proof (induction data indent off rule: hexdump_from.induct)
  case (1 data indent off)
  show ?case
  proof (cases "off < length data")
    case True
    then have "drop off data \<noteq> []" by simp
    then have "rows16 (drop off data) = take 16 (drop off data) # rows16 (drop (off + 16) data)"
      using rows16_step [of "drop off data"] by (simp add: add.commute)
    with True "1.IH" "1.prems" show ?thesis
      by (simp add: hexdump_from.simps [of data indent off] hexdump_row_text)
  next
    case False
    then show ?thesis by (simp add: hexdump_from.simps [of data indent off])
  qed
qed

lemma concat_rows16: "concat (rows16 bs) = bs"
  by (induction bs rule: rows16.induct) simp_all

lemma rows16_sizes: "r \<in> set (rows16 bs) \<Longrightarrow> 0 < length r \<and> length r \<le> 16"
  by (induction bs rule: rows16.induct) auto

lemma length_row_cells: "length (concat (map (row_cell r) [0..<16])) = 49"
proof -
  have "map (\<lambda>i. length (row_cell r i)) [0..<16] = map (\<lambda>i. if i = 7 then 4 else 3) [0..<16]"
    by (rule map_cong) (simp_all add: row_cell_def)
  then have "sum_list (map (\<lambda>i. length (row_cell r i)) [0..<16]) = 49"
    by (simp add: upt_conv_Cons)
  then show ?thesis
    by (simp only: length_concat map_map comp_def)
qed

lemma length_row_text:
  "off < 16 ^ 4 \<Longrightarrow> length (row_text indent off r) = length indent + 59 + length r"
  using length_row_cells [of r] length_fmt_04zx [of off]
  by (simp only: row_text_def length_append length_map list.size)

section \<open>Properties\<close>

text \<open>
  The opcode is the little-endian 16-bit value in bytes 4 and 5 of a packet with the
  standard header, and the sentinel 0xFFFF for every other packet (short, or a handshake
  acknowledgement); writing any opcode after the header and reading it back gives it again,
  so no value is lost to sign or order of bytes.
\<close>

theorem opcode_little_endian:
  "opcode_of p = (if prefix [0x04, 0x00, 0x04, 0x00] p \<and> 6 \<le> length p
                  then of_nat (unat (p ! 4) + 256 * unat (p ! 5)) else 0xFFFF)
   \<and> opcode_of (kStdHeader @ opcode_bytes op @ rest) = op"
proof -
  have "of_nat (unat (p ! 4) + 256 * unat (p ! 5)) = (ucast (p ! 4) OR push_bit 8 (ucast (p ! 5)) :: u16)"
    by (simp flip: unat_le_word)
  then have "opcode_of p = (if prefix [0x04, 0x00, 0x04, 0x00] p \<and> 6 \<le> length p
                  then of_nat (unat (p ! 4) + 256 * unat (p ! 5)) else 0xFFFF)"
    by (auto simp: opcode_of_def has_std_header_def starts_with_prefix kStdHeader_def)
  then show ?thesis using opcode_of_opcode_bytes by blast
qed

text \<open>
  C39: Every packet below 10^20 bytes gets the label of its class, in full: the 96-byte buffer
  the label is printed into never cuts one, whatever the names in the tables and the values in
  the packet.
\<close>

theorem label_is_class_text:
  assumes "length p < 10 ^ 20"
  shows "opcode_label p = class_text (classify p)"
  by (rule opcode_label_classify [OF assms])

theorem label_is_class_text_witness:
  "opcode_label [0x04, 0x00, 0x04, 0x00, 0x09, 0x00, 0x2C, 0x01] = ''control: hearing-aid-enrolled/enabled = 0x01''"
proof -
  have "opcode_label [0x04, 0x00, 0x04, 0x00, 0x09, 0x00, 0x2C, 0x01]
      = class_text (classify [0x04, 0x00, 0x04, 0x00, 0x09, 0x00, 0x2C, 0x01])"
    by (rule label_is_class_text) simp
  also have "\<dots> = ''control: hearing-aid-enrolled/enabled = 0x01''" by code_simp
  finally show ?thesis .
qed

text \<open>
  The two hexadecimal texts lose nothing: reading back the compact form of the capture file
  or the spaced form of the log gives the bytes again, and the compact form has two characters
  for every byte.
\<close>

theorem hex_texts_readable:
  "read_hexcompact (hexcompact bs) = Some bs \<and> read_hexline (hexline bs) = Some bs
   \<and> length (hexcompact bs) = 2 * length bs"
  by (simp add: compact.decode_encode line.decode_encode length_hexcompact)

text \<open>
  The hexdump prints the data row by row: each row holds one to sixteen bytes, the rows
  together are the data, and the offsets count up by sixteen.
\<close>

theorem hexdump_rows:
  assumes "length data \<le> 16 ^ 16"
  shows "hexdump data indent = row_texts indent 0 (rows16 data) \<and> concat (rows16 data) = data
    \<and> list_all (\<lambda>r. 0 < length r \<and> length r \<le> 16) (rows16 data)"
  using hexdump_from_rows [OF assms, of indent 0] concat_rows16 rows16_sizes
  by (auto simp: hexdump_def list_all_iff)

theorem hexdump_rows_witness:
  "hexdump (map of_nat [65..<83]) '' '' = row_text '' '' 0 (map of_nat [65..<81]) @ row_text '' '' 16 [81, 82]"
proof -
  have "hexdump (map of_nat [65..<83]) '' '' = row_texts '' '' 0 (rows16 (map of_nat [65..<83]))"
    using hexdump_rows [of "map of_nat [65..<83]" "'' ''"] by simp
  also have "rows16 (map of_nat [65..<83]) = [map of_nat [65..<81], [81, 82 :: u8]]" by code_simp
  finally show ?thesis by simp
qed

end
