(* ===== verification/Aap_Socket.thy ===== *)
theory Aap_Socket
  imports Aap_Protocol "HOL-Library.Multiset"
begin

text \<open>
  The L2CAP channel: \<open>lib/include/airprobe/aap_socket.h\<close> and \<open>lib/src/aap_socket.cpp\<close>.
  The kernel, libbluetooth and the clock are not part of the program: their answers are the
  parameter \<open>os\<close>, one function per call, indexed by the number of calls made so far, so that
  any sequence of answers is possible. What the program does to the kernel is recorded in a
  trace. The lemmas show that a failed connect leaves no descriptor behind, that every
  descriptor is closed once, and what the return values of send and read mean.
\<close>

section \<open>The operating system as a parameter\<close>

text \<open>
  Failing calls answer a negative value and an \<open>errno\<close>. \<open>os_poll\<close> also answers \<open>revents\<close>;
  \<open>os_read\<close> answers an \<open>errno\<close> or the message, of which the kernel copies at most the
  size of the buffer. \<open>os_now\<close> is the steady clock in nanoseconds since its epoch.
\<close>

record os =
  os_str2ba :: "string \<Rightarrow> int"
  os_route :: "nat \<Rightarrow> int \<times> int"
  os_socket :: "nat \<Rightarrow> int \<times> int"
  os_setsockopt :: "nat \<Rightarrow> int \<times> int"
  os_connect :: "nat \<Rightarrow> int \<times> int"
  os_write :: "nat \<Rightarrow> int \<times> int"
  os_poll :: "nat \<Rightarrow> int \<times> int \<times> u16"
  os_read :: "nat \<Rightarrow> int + bytes"
  os_now :: "nat \<Rightarrow> int"

datatype sys_event =
    SysSocket int
  | SysSecurity int int
  | SysConnect int string u16 int
  | SysWrite int bytes int
  | SysPoll int int
  | SysRead int int
  | SysClose int
  | SysSleep int

record world =
  w_ix :: nat
  w_trace :: "sys_event list"

definition tick_ix :: "'z world_scheme \<Rightarrow> 'z world_scheme" where
  "tick_ix s = s\<lparr>w_ix := Suc (w_ix s)\<rparr>"

definition log_ev :: "sys_event \<Rightarrow> 'z world_scheme \<Rightarrow> 'z world_scheme" where
  "log_ev e s = s\<lparr>w_trace := w_trace s @ [e]\<rparr>"

text \<open>Linux values of the \<open>errno\<close> constants and poll bits the code names.\<close>

definition EPERM :: int where
  "EPERM = 1"

definition EINTR :: int where
  "EINTR = 4"

definition EACCES :: int where
  "EACCES = 13"

definition EBUSY :: int where
  "EBUSY = 16"

definition EINVAL :: int where
  "EINVAL = 22"

definition ENOPROTOOPT :: int where
  "ENOPROTOOPT = 92"

definition EPROTONOSUPPORT :: int where
  "EPROTONOSUPPORT = 93"

definition EAFNOSUPPORT :: int where
  "EAFNOSUPPORT = 97"

definition ENETDOWN :: int where
  "ENETDOWN = 100"

definition ETIMEDOUT :: int where
  "ETIMEDOUT = 110"

definition ECONNREFUSED :: int where
  "ECONNREFUSED = 111"

definition EHOSTDOWN :: int where
  "EHOSTDOWN = 112"

lemmas errno_defs = EPERM_def EINTR_def EACCES_def EBUSY_def EINVAL_def ENOPROTOOPT_def
  EPROTONOSUPPORT_def EAFNOSUPPORT_def ENETDOWN_def ETIMEDOUT_def ECONNREFUSED_def EHOSTDOWN_def

definition POLLERR_HUP_NVAL :: u16 where
  "POLLERR_HUP_NVAL = 0x08 OR 0x10 OR 0x20"

definition kAapPsm :: u16 where
  "kAapPsm = 0x1001"

section \<open>Stages and diagnoses\<close>

datatype stage = ParseAddress | AdapterCheck | CreateSocket | SetSecurity | Connect | Connected

fun stage_name :: "stage \<Rightarrow> string" where
  "stage_name ParseAddress = ''parse-address''"
| "stage_name AdapterCheck = ''adapter-check''"
| "stage_name CreateSocket = ''create-socket''"
| "stage_name SetSecurity = ''set-security''"
| "stage_name Connect = ''connect''"
| "stage_name Connected = ''connected''"

fun diagnose :: "stage \<Rightarrow> int \<Rightarrow> string" where
  "diagnose ParseAddress err =
     ''Not a Bluetooth address. Expected form AA:BB:CC:DD:EE:FF. '' @
     ''Get the classic paired address with: bluetoothctl devices''"
| "diagnose AdapterCheck err =
     ''No live Bluetooth adapter. Check `rfkill list` for a soft block '' @
     ''and `bluetoothctl show` for Powered: yes. The daemon must never '' @
     ''spin a connect loop in this state.''"
| "diagnose CreateSocket err =
     (if err = EPERM \<or> err = EACCES then
        ''Kernel refused the raw L2CAP socket. Either add the binary '' @
        ''cap_net_raw,cap_net_admin, or add your user to the '' @
        [CHR 0x27] @ ''bluetooth'' @ [CHR 0x27] @ '' group. See build.sh notes.''
      else if err = EAFNOSUPPORT \<or> err = EPROTONOSUPPORT then
        ''Kernel has no BTPROTO_L2CAP support. Unexpected on Fedora; '' @
        ''check the Asahi kernel config.''
      else ''socket() failed for an unclassified reason.'')"
| "diagnose SetSecurity err =
     (if err = EPERM \<or> err = EACCES then
        ''Refused BT_SECURITY_MEDIUM -- permissions again. Try '' @
        ''--insecure to see whether the pods accept the channel '' @
        ''without it.''
      else if err = ENOPROTOOPT then
        ''BT_SECURITY not supported on this socket type. Try '' @
        ''--insecure.''
      else ''setsockopt(BT_SECURITY) failed. Try --insecure to isolate.'')"
| "diagnose Connect err =
     (if err = EBUSY then
        ''Channel busy. Almost certainly the iPhone holds the pods -- '' @
        ''only ONE host holds the AAP channel at a time. Disconnect '' @
        ''them from the phone and retry.''
      else if err = EHOSTDOWN \<or> err = ENETDOWN then
        ''Host down. The pods are not currently connected to this '' @
        ''machine as a classic device. Connect them first in '' @
        ''GNOME Settings -> Bluetooth, then retry.''
      else if err = ECONNREFUSED then
        ''Refused at PSM 0x1001. Either the pods are connected to '' @
        ''another host, or this model does not expose AAP on that '' @
        ''PSM. Confirm the pods show as Connected before suspecting '' @
        ''the PSM.''
      else if err = ETIMEDOUT then
        ''Timed out. Pods may be in the case or out of range.''
      else if err = EPERM \<or> err = EACCES then
        ''Permission denied on connect. Capabilities / bluetooth '' @
        ''group -- see build.sh notes.''
      else if err = EINVAL then
        ''Invalid argument -- suspect the address type. This must be '' @
        ''BDADDR_BREDR (classic), never BDADDR_LE_PUBLIC or '' @
        ''BDADDR_LE_RANDOM.''
      else ''connect() failed for an unclassified reason.'')"
| "diagnose Connected err = ''''"

record connect_result =
  ok :: bool
  reached :: stage
  err :: int
  diagnosis :: string

definition fail :: "stage \<Rightarrow> int \<Rightarrow> connect_result" where
  "fail st e = \<lparr>ok = False, reached = st, err = e, diagnosis = diagnose st e\<rparr>"

section \<open>The socket\<close>

record aap_socket = world +
  sock_fd :: int

definition is_open :: "'z aap_socket_scheme \<Rightarrow> bool" where
  "is_open s \<longleftrightarrow> 0 \<le> sock_fd s"

definition sock_close :: "'z aap_socket_scheme \<Rightarrow> 'z aap_socket_scheme" where
  "sock_close s = (if 0 \<le> sock_fd s then (log_ev (SysClose (sock_fd s)) s)\<lparr>sock_fd := -1\<rparr> else s)"

definition connect_to ::
    "os \<Rightarrow> string \<Rightarrow> bool \<Rightarrow> 'z aap_socket_scheme \<Rightarrow> connect_result \<times> 'z aap_socket_scheme" where
  "connect_to os mac sec s =
    (let s = sock_close s in
     if os_str2ba os mac < 0 then (fail ParseAddress EINVAL, s)
     else let (dev_id, e) = os_route os (w_ix s); s = tick_ix s in
     if dev_id < 0 then (fail AdapterCheck e, s)
     else let (fd, e) = os_socket os (w_ix s); s = log_ev (SysSocket fd) (tick_ix s) in
     if fd < 0 then (fail CreateSocket e, s)
     else let s = s\<lparr>sock_fd := fd\<rparr>;
              (ret, e) = (if sec then os_setsockopt os (w_ix s) else (0, 0));
              s = (if sec then log_ev (SysSecurity fd ret) (tick_ix s) else s) in
     if sec \<and> ret < 0 then (fail SetSecurity e, sock_close s)
     else let (ret, e) = os_connect os (w_ix s);
              s = log_ev (SysConnect fd mac kAapPsm ret) (tick_ix s) in
     if ret < 0 then (fail Connect e, sock_close s)
     else (\<lparr>ok = True, reached = Connected, err = 0, diagnosis = ''''\<rparr>, s))"

definition send_packet :: "os \<Rightarrow> bytes \<Rightarrow> 'z aap_socket_scheme \<Rightarrow> bool \<times> 'z aap_socket_scheme" where
  "send_packet os bs s =
    (if sock_fd s < 0 then (False, s)
     else let (n, e) = os_write os (w_ix s); s = log_ev (SysWrite (sock_fd s) bs n) (tick_ix s) in
     if n < 0 then (False, s)
     else if n \<noteq> int (length bs) then (False, s)
     else (True, s))"

text \<open>The caller's buffer is passed in and returned; it is untouched on a timeout.\<close>

definition read_packet ::
    "os \<Rightarrow> int \<Rightarrow> bytes \<Rightarrow> 'z aap_socket_scheme \<Rightarrow> int \<times> bytes \<times> 'z aap_socket_scheme" where
  "read_packet os timeout out s =
    (if sock_fd s < 0 then (-1, out, s)
     else let (pr, e, revents) = os_poll os (w_ix s); s = log_ev (SysPoll (sock_fd s) timeout) (tick_ix s) in
     if pr < 0 then (if e = EINTR then (0, out, s) else (-1, out, s))
     else if pr = 0 then (0, out, s)
     else if revents AND POLLERR_HUP_NVAL \<noteq> 0 then (-1, out, s)
     else let r = os_read os (w_ix s); s = tick_ix s in
     case r of
       Inl e \<Rightarrow> (-1, replicate 1024 0, log_ev (SysRead (sock_fd s) (-1)) s)
     | Inr msg \<Rightarrow>
         let n = int (length (take 1024 msg)); s = log_ev (SysRead (sock_fd s) n) s in
         if n = 0 then (-1, replicate 1024 0, s)
         else (n, take 1024 msg, s))"

text \<open>
  Moving a socket: the descriptors of the target and the source, and what is closed. \<open>same\<close>
  is the self-assignment test.
\<close>

definition move_construct :: "int \<Rightarrow> int \<times> int" where
  "move_construct other = (other, -1)"

definition move_assign :: "bool \<Rightarrow> int \<Rightarrow> int \<Rightarrow> int \<times> int \<times> sys_event list" where
  "move_assign same this other =
     (if same then (this, this, [])
      else (other, -1, if 0 \<le> this then [SysClose this] else []))"

section \<open>Frame facts\<close>

lemma tick_ix_sels [simp]: "w_trace (tick_ix s) = w_trace s" "w_ix (tick_ix s) = Suc (w_ix s)"
  by (simp_all add: tick_ix_def)

lemma log_ev_sels [simp]: "w_trace (log_ev e s) = w_trace s @ [e]" "w_ix (log_ev e s) = w_ix s"
  by (simp_all add: log_ev_def)

lemma fd_tick_log [simp]:
  fixes s :: "'z aap_socket_scheme"
  shows "sock_fd (tick_ix s) = sock_fd s" and "sock_fd (log_ev e s) = sock_fd s"
  by (simp_all add: tick_ix_def log_ev_def)

lemma more_tick_log [simp]:
  fixes s :: "'z aap_socket_scheme"
  shows "aap_socket.more (tick_ix s) = aap_socket.more s"
    and "aap_socket.more (log_ev e s) = aap_socket.more s"
  by (simp_all add: tick_ix_def log_ev_def)

lemma sock_close_sels [simp]:
  "sock_fd (sock_close s) = (if 0 \<le> sock_fd s then -1 else sock_fd s)"
  "w_ix (sock_close s) = w_ix s"
  "w_trace (sock_close s) = w_trace s @ (if 0 \<le> sock_fd s then [SysClose (sock_fd s)] else [])"
  "aap_socket.more (sock_close s) = aap_socket.more s"
  by (simp_all add: sock_close_def)

lemma not_open_closed [simp]: "\<not> is_open (sock_close s)"
  by (simp add: is_open_def)

text \<open>
  The three operations touch the world and the descriptor only, whatever record the socket
  is part of.
\<close>

lemma sock_close_upd: "\<exists>t f. sock_close s = s\<lparr>w_trace := t, sock_fd := f\<rparr>"
  by (cases s) (auto simp: sock_close_def log_ev_def)

lemma connect_to_upd:
  "\<exists>i t f. snd (connect_to os mac sec s) = s\<lparr>w_ix := i, w_trace := t, sock_fd := f\<rparr>"
  by (cases s) (auto simp: connect_to_def Let_def tick_ix_def log_ev_def sock_close_def split: prod.splits)

lemma send_packet_upd: "\<exists>i t. snd (send_packet os bs s) = s\<lparr>w_ix := i, w_trace := t\<rparr>"
  by (cases s) (auto simp: send_packet_def Let_def tick_ix_def log_ev_def split: prod.splits)

lemma read_packet_upd: "\<exists>i t. snd (snd (read_packet os tmo out s)) = s\<lparr>w_ix := i, w_trace := t\<rparr>"
  by (cases s) (auto simp: read_packet_def Let_def tick_ix_def log_ev_def split: prod.splits sum.splits)

section \<open>What the results mean\<close>

text \<open>A connect either holds an open channel or has left nothing open, and says why.\<close>

definition connect_outcome :: "connect_result \<Rightarrow> bool \<Rightarrow> bool" where
  "connect_outcome r opn \<longleftrightarrow>
     ok r = opn \<and>
     (if ok r then reached r = Connected \<and> err r = 0 \<and> diagnosis r = ''''
      else reached r \<noteq> Connected \<and> diagnosis r = diagnose (reached r) (err r))"

lemma connect_to_outcome:
  "connect_outcome (fst (connect_to os mac sec s)) (is_open (snd (connect_to os mac sec s)))"
  by (auto simp: connect_to_def connect_outcome_def is_open_def fail_def Let_def
      simp del: diagnose.simps split: prod.splits)

lemma diagnose_says_something: "st \<noteq> Connected \<Longrightarrow> diagnose st e \<noteq> ''''"
  by (cases st) auto

lemma connect_to_ok_open: "ok (fst (connect_to os mac sec s)) = is_open (snd (connect_to os mac sec s))"
  using connect_to_outcome by (auto simp: connect_outcome_def)

lemma send_packet_fd [simp]: "sock_fd (snd (send_packet os bs s)) = sock_fd s"
  using send_packet_upd [of os bs s] by auto

lemma read_packet_fd [simp]: "sock_fd (snd (snd (read_packet os tmo out s))) = sock_fd s"
  using read_packet_upd [of os tmo out s] by auto

text \<open>Sending writes the packet at most once and succeeds only when all of it was taken.\<close>

lemma send_packet_trace:
  "w_trace (snd (send_packet os bs s)) =
     w_trace s @ (if is_open s then [SysWrite (sock_fd s) bs (fst (os_write os (w_ix s)))] else [])"
  by (auto simp: send_packet_def is_open_def Let_def split: prod.splits)

lemma send_packet_ok:
  "fst (send_packet os bs s) \<longleftrightarrow> is_open s \<and> fst (os_write os (w_ix s)) = int (length bs)"
  by (auto simp: send_packet_def is_open_def Let_def split: prod.splits)

lemma read_packet_result:
  assumes "read_packet os tmo out s = (n, out', s')"
  shows "n = -1 \<or> n = 0 \<and> out' = out \<or> 0 < n \<and> n \<le> 1024 \<and> n = int (length out')"
  using assms by (auto simp: read_packet_def Let_def split: prod.splits sum.splits if_splits)

section \<open>Descriptors are closed exactly once\<close>

primrec fds_opened :: "sys_event list \<Rightarrow> int multiset" where
  "fds_opened [] = {#}"
| "fds_opened (e # es) =
     (case e of SysSocket fd \<Rightarrow> if 0 \<le> fd then {#fd#} else {#} | _ \<Rightarrow> {#}) + fds_opened es"

primrec fds_closed :: "sys_event list \<Rightarrow> int multiset" where
  "fds_closed [] = {#}"
| "fds_closed (e # es) = (case e of SysClose fd \<Rightarrow> {#fd#} | _ \<Rightarrow> {#}) + fds_closed es"

lemma fds_append [simp]:
  "fds_opened (xs @ ys) = fds_opened xs + fds_opened ys"
  "fds_closed (xs @ ys) = fds_closed xs + fds_closed ys"
  by (induction xs) (simp_all add: ac_simps)

definition fds_balanced :: "'z aap_socket_scheme \<Rightarrow> bool" where
  "fds_balanced s \<longleftrightarrow>
     fds_opened (w_trace s) = fds_closed (w_trace s) + (if 0 \<le> sock_fd s then {#sock_fd s#} else {#})"

lemma fds_balanced_close: "fds_balanced s \<Longrightarrow> fds_balanced (sock_close s)"
  by (auto simp: fds_balanced_def)

lemma fds_balanced_connect: "fds_balanced s \<Longrightarrow> fds_balanced (snd (connect_to os mac sec s))"
  by (drule fds_balanced_close)
    (auto simp: connect_to_def fds_balanced_def Let_def split: prod.splits if_splits)

lemma fds_balanced_send: "fds_balanced s \<Longrightarrow> fds_balanced (snd (send_packet os bs s))"
  by (auto simp: send_packet_def fds_balanced_def Let_def split: prod.splits)

lemma fds_balanced_read: "fds_balanced s \<Longrightarrow> fds_balanced (snd (snd (read_packet os tmo out s)))"
  by (auto simp: read_packet_def fds_balanced_def Let_def split: prod.splits sum.splits)

text \<open>Any sequence of operations on one socket, from a new one.\<close>

datatype sock_op = OpConnect string bool | OpClose | OpSend bytes | OpRead int

fun sock_do :: "os \<Rightarrow> sock_op \<Rightarrow> aap_socket \<Rightarrow> aap_socket" where
  "sock_do os (OpConnect mac sec) s = snd (connect_to os mac sec s)"
| "sock_do os OpClose s = sock_close s"
| "sock_do os (OpSend bs) s = snd (send_packet os bs s)"
| "sock_do os (OpRead tmo) s = snd (snd (read_packet os tmo [] s))"

definition new_socket :: aap_socket where
  "new_socket = \<lparr>w_ix = 0, w_trace = [], sock_fd = -1\<rparr>"

interpretation socket_ops: event_handler "sock_do os" "fds_balanced :: aap_socket \<Rightarrow> bool" for os
proof
  fix s :: aap_socket and e assume "fds_balanced s"
  then show "fds_balanced (sock_do os e s)"
    by (cases e) (simp_all add: fds_balanced_close fds_balanced_connect fds_balanced_send fds_balanced_read)
qed

lemma new_socket_balanced: "fds_balanced new_socket"
  by (simp add: fds_balanced_def new_socket_def)

section \<open>Properties\<close>

text \<open>
  C32: A connect ends in exactly one of two ways: the channel is open, or nothing is open, the
  stage that failed is named and its diagnosis is not empty. Whatever the kernel answers, a
  failed connect leaves no open descriptor.
\<close>

theorem connect_open_or_explained:
  "case connect_to os mac sec s of (r, s') \<Rightarrow>
     if ok r then is_open s' \<and> reached r = Connected \<and> err r = 0 \<and> diagnosis r = ''''
     else \<not> is_open s' \<and> reached r \<noteq> Connected \<and> diagnosis r = diagnose (reached r) (err r) \<and> diagnosis r \<noteq> ''''"
  using connect_to_outcome [of os mac sec s]
    diagnose_says_something [of "reached (fst (connect_to os mac sec s))" "err (fst (connect_to os mac sec s))"]
  by (auto simp: connect_outcome_def split: prod.split)

text \<open>
  C23: No descriptor leaks and none is closed twice: after any sequence of connects, sends,
  reads and closes on a socket, the descriptors the kernel handed out are the ones closed plus
  the one still open.
\<close>

theorem descriptors_balanced: "fds_balanced (fold (sock_do os) ops new_socket)"
  by (rule socket_ops.fold_inv [OF new_socket_balanced])

text \<open>
  What a send and a read report is what happened: a packet counts as sent exactly when the
  kernel took every byte of it in one write on an open socket, and a read gives an error, or
  nothing with the buffer untouched, or between 1 and 1024 bytes of one packet.
\<close>

lemma send_read_results:
  "(fst (send_packet os bs s) \<longleftrightarrow>
      (\<exists>n. w_trace (snd (send_packet os bs s)) = w_trace s @ [SysWrite (sock_fd s) bs n]
           \<and> n = int (length bs) \<and> is_open s))
   \<and> (case read_packet os tmo out s of (n, out', s') \<Rightarrow>
       n = -1 \<or> n = 0 \<and> out' = out \<or> 0 < n \<and> n \<le> 1024 \<and> n = int (length out'))"
  using send_packet_trace [of os bs s] send_packet_ok [of os bs s] read_packet_result [of os tmo out s]
  by (auto split: prod.split)

end
