(* ===== verification/Aap_Battery.thy ===== *)
theory Aap_Battery
  imports Aap_Protocol
begin

text \<open>
  The battery report parser: \<open>lib/include/airprobe/aap_battery.h\<close> and
  \<open>lib/src/aap_battery.cpp\<close>. The parser is modelled with every indexed read checked, and the
  lemmas show that no read is out of bounds, that the index loop computes the same report
  as a reference decoder that eats five bytes at a time, that a level is present exactly
  when the component reports and the byte is a percentage, and that the reports and the
  packets that encode them correspond.
\<close>

section \<open>Components, statuses, reports\<close>

datatype component = Case | Left | Right

text \<open>
  \<open>ChargeStatus\<close> is an \<open>enum class\<close> over \<open>uint8_t\<close> and the parser casts any byte to it, so
  a value outside the four enumerators is possible and keeps its byte.
\<close>

datatype charge_status = Unknown | Charging | Discharging | Disconnected | Unenumerated u8

record battery_component =
  component :: component
  status :: charge_status
  level :: "u8 option"
  raw_level :: u8
  framing_anomaly :: bool

record battery_report =
  components :: "battery_component list"

fun component_byte :: "component \<Rightarrow> u8" where
  "component_byte Case = 0x08"
| "component_byte Left = 0x04"
| "component_byte Right = 0x02"

fun status_byte :: "charge_status \<Rightarrow> u8" where
  "status_byte Unknown = 0x00"
| "status_byte Charging = 0x01"
| "status_byte Discharging = 0x02"
| "status_byte Disconnected = 0x04"
| "status_byte (Unenumerated b) = b"

definition charge_status_of :: "u8 \<Rightarrow> charge_status" where
  "charge_status_of b =
     (if b = 0x00 then Unknown else if b = 0x01 then Charging else if b = 0x02 then Discharging
      else if b = 0x04 then Disconnected else Unenumerated b)"

definition known_component :: "u8 \<Rightarrow> bool" where
  "known_component b \<longleftrightarrow> b = component_byte Case \<or> b = component_byte Left \<or> b = component_byte Right"

text \<open>\<open>static_cast<Component>\<close>, used on known bytes only.\<close>

definition component_of :: "u8 \<Rightarrow> component" where
  "component_of b = (if b = component_byte Case then Case
                     else if b = component_byte Left then Left else Right)"

fun component_name :: "component \<Rightarrow> string" where
  "component_name Case = ''case''"
| "component_name Left = ''left''"
| "component_name Right = ''right''"

fun status_name :: "charge_status \<Rightarrow> string" where
  "status_name Unknown = ''unknown''"
| "status_name Charging = ''charging''"
| "status_name Discharging = ''discharging''"
| "status_name Disconnected = ''disconnected''"
| "status_name (Unenumerated _) = ''?''"

definition component_to_string :: "battery_component \<Rightarrow> string" where
  "component_to_string c =
     (case level c of
        Some l \<Rightarrow> snprintf_c 96 (component_name (component c) @ '' '' @ fmt_u (unat l) @ ''% (''
                                   @ status_name (status c) @ '')'')
      | None \<Rightarrow> snprintf_c 96 (component_name (component c) @ '' --% ('' @ status_name (status c)
                                 @ '', raw 0x'' @ fmt_02X (raw_level c) @ '')''))
     @ (if framing_anomaly c then '' [FRAMING ANOMALY]'' else '''')"

fun find_in :: "battery_component list \<Rightarrow> component \<Rightarrow> battery_component option" where
  "find_in [] c = None"
| "find_in (x # xs) c = (if component x = c then Some x else find_in xs c)"

definition report_find :: "battery_report \<Rightarrow> component \<Rightarrow> battery_component option" where
  "report_find r c = find_in (components r) c"

definition report_to_string :: "battery_report \<Rightarrow> string" where
  "report_to_string r =
     (let out = concat (map (\<lambda>i. (if i \<noteq> 0 then ''   '' else '''') @ component_to_string (components r ! i))
                            [0..<length (components r)])
      in if out = [] then ''(no components)'' else out)"

section \<open>The parser\<close>

definition kBlockSize :: nat where
  "kBlockSize = 5"

definition kCountOffset :: nat where
  "kCountOffset = 6"

definition kFirstBlock :: nat where
  "kFirstBlock = 7"

definition kOffComponent :: nat where
  "kOffComponent = 0"

definition kOffSpacer :: nat where
  "kOffSpacer = 1"

definition kOffLevel :: nat where
  "kOffLevel = 2"

definition kOffStatus :: nat where
  "kOffStatus = 3"

definition kOffEnd :: nat where
  "kOffEnd = 4"

lemmas offset_defs = kOffComponent_def kOffSpacer_def kOffLevel_def kOffStatus_def kOffEnd_def

definition parse_block :: "bytes \<Rightarrow> nat \<Rightarrow> access_error + battery_component option" where
  "parse_block packet i =
     (let base = kFirstBlock + i * kBlockSize in
      and_then (span_at packet (base + kOffComponent)) (\<lambda>comp_byte.
      and_then (span_at packet (base + kOffSpacer)) (\<lambda>spacer.
      and_then (span_at packet (base + kOffLevel)) (\<lambda>level_byte.
      and_then (span_at packet (base + kOffStatus)) (\<lambda>stat_byte.
      and_then (span_at packet (base + kOffEnd)) (\<lambda>end_byte.
        if \<not> known_component comp_byte then Inr None
        else let st = charge_status_of stat_byte; reporting = (st \<noteq> Disconnected) in
          Inr (Some \<lparr>component = component_of comp_byte, status = st,
                     level = (if reporting \<and> level_byte \<le> 100 then Some level_byte else None),
                     raw_level = level_byte,
                     framing_anomaly = (spacer \<noteq> 0x01 \<or> end_byte \<noteq> 0x01)\<rparr>)))))))"

function parse_loop :: "bytes \<Rightarrow> nat \<Rightarrow> nat \<Rightarrow> battery_component list \<Rightarrow> access_error + battery_report option" where
  "parse_loop packet count i acc =
     (if i < count then
        and_then (parse_block packet i) (\<lambda>r. case r of
            None \<Rightarrow> Inr None
          | Some c \<Rightarrow> parse_loop packet count (i + 1) (acc @ [c]))
      else Inr (Some \<lparr>components = acc\<rparr>))"
  by pat_completeness auto
termination
  by (relation "measure (\<lambda>(packet, count, i, acc). count - i)") auto

declare parse_loop.simps [simp del]

definition parse_battery_checked :: "bytes \<Rightarrow> access_error + battery_report option" where
  "parse_battery_checked packet =
     (if \<not> has_std_header packet then Inr None
      else if opcode_of packet \<noteq> kOpBattery then Inr None
      else if length packet \<le> kCountOffset then Inr None
      else and_then (span_at packet kCountOffset) (\<lambda>n.
        let count = unat n in
        if length packet \<noteq> kFirstBlock + count * kBlockSize then Inr None
        else parse_loop packet count 0 []))"

text \<open>
  What the callers of \<open>parse_battery\<close> see. The undefined case is mapped to a refusal; the
  lemma \<open>parse_battery_checked_ok\<close> shows it does not arise.
\<close>

definition parse_battery :: "bytes \<Rightarrow> battery_report option" where
  "parse_battery packet = (case parse_battery_checked packet of Inr r \<Rightarrow> r | Inl _ \<Rightarrow> None)"

section \<open>A reference decoder\<close>

text \<open>The wire format as the header comment states it, five bytes at a time.\<close>

definition believed :: "charge_status \<Rightarrow> u8 \<Rightarrow> u8 option" where
  "believed st raw = (if st \<noteq> Disconnected \<and> raw \<le> 100 then Some raw else None)"

fun decode_blocks :: "bytes \<Rightarrow> battery_component list option" where
  "decode_blocks [] = Some []"
| "decode_blocks (c # sp # l # st # e # rest) =
     (if known_component c then
        map_option ((#) \<lparr>component = component_of c, status = charge_status_of st,
                         level = believed (charge_status_of st) l, raw_level = l,
                         framing_anomaly = (sp \<noteq> 1 \<or> e \<noteq> 1)\<rparr>) (decode_blocks rest)
      else None)"
| "decode_blocks _ = None"

definition battery_shape :: "bytes \<Rightarrow> bool" where
  "battery_shape p \<longleftrightarrow> take 6 p = [0x04, 0x00, 0x04, 0x00, 0x04, 0x00] \<and> 6 < length p
     \<and> length p = 7 + 5 * unat (p ! 6)"

definition decode_report :: "bytes \<Rightarrow> battery_report option" where
  "decode_report p = (if battery_shape p
     then map_option (\<lambda>cs. \<lparr>components = cs\<rparr>) (decode_blocks (drop 7 p)) else None)"

text \<open>The encoder: the packet the pods send for a report.\<close>

definition encode_component :: "battery_component \<Rightarrow> bytes" where
  "encode_component c = [component_byte (component c), 0x01, raw_level c, status_byte (status c), 0x01]"

definition encode_report :: "battery_report \<Rightarrow> bytes" where
  "encode_report r = [0x04, 0x00, 0x04, 0x00, 0x04, 0x00, of_nat (length (components r))]
                     @ concat (map encode_component (components r))"

definition component_ok :: "battery_component \<Rightarrow> bool" where
  "component_ok c \<longleftrightarrow> charge_status_of (status_byte (status c)) = status c
     \<and> level c = believed (status c) (raw_level c)"

definition report_ok :: "battery_report \<Rightarrow> bool" where
  "report_ok r \<longleftrightarrow> length (components r) < 256 \<and> list_all component_ok (components r)"

definition report_clean :: "battery_report \<Rightarrow> bool" where
  "report_clean r \<longleftrightarrow> report_ok r \<and> list_all (\<lambda>c. \<not> framing_anomaly c) (components r)"

section \<open>The parser and the reference agree\<close>

lemma parse_block_in:
  assumes "7 + i * 5 + 5 \<le> length p"
  shows "parse_block p i =
    (let b = 7 + i * 5 in
     if known_component (p ! b) then
       Inr (Some \<lparr>component = component_of (p ! b), status = charge_status_of (p ! (b + 3)),
                  level = believed (charge_status_of (p ! (b + 3))) (p ! (b + 2)), raw_level = p ! (b + 2),
                  framing_anomaly = (p ! (b + 1) \<noteq> 1 \<or> p ! (b + 4) \<noteq> 1)\<rparr>)
     else Inr None)"
  using assms by (simp add: parse_block_def kFirstBlock_def kBlockSize_def offset_defs believed_def Let_def)

lemma parse_loop_decode:
  assumes "length p = 7 + 5 * n" and "i \<le> n"
  shows "parse_loop p n i acc
    = Inr (map_option (\<lambda>cs. \<lparr>components = acc @ cs\<rparr>) (decode_blocks (drop (7 + 5 * i) p)))"
  using assms(2)
proof (induction "n - i" arbitrary: i acc)
  case 0
  with assms(1) show ?case by (subst parse_loop.simps) simp
next
  case (Suc k)
  then have "i < n" and IH: "\<And>acc. parse_loop p n (i + 1) acc
      = Inr (map_option (\<lambda>cs. \<lparr>components = acc @ cs\<rparr>) (decode_blocks (drop (7 + 5 * (i + 1)) p)))"
    by simp_all
  with assms(1) have "7 + i * 5 + 5 \<le> length p" by simp
  note block = parse_block_in [OF this] and drp = drop_eq_5 [OF this]
  have nxt: "7 + 5 * (i + 1) = 7 + i * 5 + 5" and eq: "7 + 5 * i = 7 + i * 5" by simp_all
  have IH': "\<And>acc. parse_loop p n (Suc i) acc
      = Inr (map_option (\<lambda>cs. \<lparr>components = acc @ cs\<rparr>) (decode_blocks (drop (7 + i * 5 + 5) p)))"
    using IH [unfolded nxt] by (simp only: Suc_eq_plus1)
  show ?case
    unfolding eq using \<open>i < n\<close>
    by (simp add: parse_loop.simps [of p n i acc] block drp IH' Let_def option.map_comp comp_def
             del: drop_drop)
qed

lemma parse_battery_opcode: "parse_battery p = Some r \<Longrightarrow> opcode_of p = kOpBattery"
  by (auto simp: parse_battery_def parse_battery_checked_def split: if_splits)

text \<open>The constants of the header agree with the enumeration.\<close>

lemma component_bytes:
  "kBatteryCase = component_byte Case" "kBatteryLeft = component_byte Left" "kBatteryRight = component_byte Right"
  by (simp_all add: kBatteryCase_def kBatteryLeft_def kBatteryRight_def)

lemma battery_opcode_iff:
  "has_std_header p \<and> opcode_of p = kOpBattery \<longleftrightarrow> take 6 p = [0x04, 0x00, 0x04, 0x00, 0x04, 0x00]"
proof
  assume a: "has_std_header p \<and> opcode_of p = kOpBattery"
  then obtain r where p: "p = 0x04 # 0x00 # 0x04 # 0x00 # r" by (auto simp: has_std_header_iff)
  from a have "6 \<le> length p" by (auto simp: opcode_of_def wire_simps split: if_splits)
  with p obtain lo hi r' where r: "r = lo # hi # r'"
    by (cases r; cases "tl r") auto
  have "unat lo + 256 * unat hi = 4"
    using a unat_le_word [of lo hi] by (simp add: p r wire_simps)
  then have hi: "unat hi = 0" and lo: "unat lo = 4" by presburger+
  have "lo = of_nat (unat lo)" and "hi = of_nat (unat hi)" by simp_all
  then have "lo = 4" and "hi = 0" by (simp_all only: lo hi) simp_all
  with p r show "take 6 p = [0x04, 0x00, 0x04, 0x00, 0x04, 0x00]" by simp
next
  assume "take 6 p = [0x04, 0x00, 0x04, 0x00, 0x04, 0x00]"
  then have "p = 0x04 # 0x00 # 0x04 # 0x00 # 0x04 # 0x00 # drop 6 p"
    by (metis append_take_drop_id append_Cons append_Nil)
  then obtain r where "p = 0x04 # 0x00 # 0x04 # 0x00 # 0x04 # 0x00 # r" by blast
  then show "has_std_header p \<and> opcode_of p = kOpBattery"
    by (simp add: wire_simps)
qed

lemma parse_battery_checked_ok: "parse_battery_checked p = Inr (decode_report p)"
proof (cases "has_std_header p \<and> opcode_of p = kOpBattery")
  case False
  then have "\<not> battery_shape p"
    using battery_opcode_iff by (auto simp: battery_shape_def)
  with False show ?thesis
    by (auto simp: parse_battery_checked_def decode_report_def)
next
  case True
  then have "battery_shape p \<longleftrightarrow> 6 < length p \<and> length p = 7 + 5 * unat (p ! 6)"
    using battery_opcode_iff by (auto simp: battery_shape_def)
  with True show ?thesis
    using parse_loop_decode [of p "unat (p ! 6)" 0 "[]"]
    by (auto simp: parse_battery_checked_def decode_report_def kCountOffset_def kFirstBlock_def
        kBlockSize_def Let_def mult.commute)
qed

lemma parse_battery_decode: "parse_battery p = decode_report p"
  by (simp add: parse_battery_def parse_battery_checked_ok)

section \<open>Reports and packets correspond\<close>

lemma component_of_byte [simp]: "component_of (component_byte c) = c"
  by (cases c) (simp_all add: component_of_def)

lemma known_component_byte [simp]: "known_component (component_byte c)"
  by (cases c) (simp_all add: known_component_def)

lemma component_byte_of: "known_component b \<Longrightarrow> component_byte (component_of b) = b"
  by (auto simp: known_component_def component_of_def)

lemma status_byte_of [simp]: "status_byte (charge_status_of b) = b"
  by (simp add: charge_status_of_def)

lemma decode_blocks_encode:
  "list_all component_ok cs \<Longrightarrow> list_all (\<lambda>c. \<not> framing_anomaly c) cs \<Longrightarrow>
   decode_blocks (concat (map encode_component cs)) = Some cs"
  by (induction cs) (auto simp: encode_component_def component_ok_def)

lemma length_encode_components: "length (concat (map encode_component cs)) = 5 * length cs"
  by (induction cs) (simp_all add: encode_component_def)

lemma decode_encode_report:
  assumes "report_clean r"
  shows "decode_report (encode_report r) = Some r"
proof -
  have "length (components r) < 256" using assms by (simp add: report_clean_def report_ok_def)
  then have "unat (of_nat (length (components r)) :: u8) = length (components r)"
    by (simp add: unsigned_of_nat take_bit_nat_eq_self)
  then have "battery_shape (encode_report r)"
    by (simp add: battery_shape_def encode_report_def length_encode_components)
  then show ?thesis
    using assms by (simp add: decode_report_def encode_report_def report_clean_def report_ok_def
        decode_blocks_encode)
qed

interpretation wire: codec encode_report parse_battery report_clean
  by unfold_locales (simp add: parse_battery_decode decode_encode_report)

lemma decode_blocks_ok: "decode_blocks bs = Some cs \<Longrightarrow> list_all component_ok cs"
  by (induction bs arbitrary: cs rule: decode_blocks.induct)
    (auto simp: component_ok_def split: if_splits)

lemma decode_blocks_length: "decode_blocks bs = Some cs \<Longrightarrow> length bs = 5 * length cs"
  by (induction bs arbitrary: cs rule: decode_blocks.induct) (auto split: if_splits)

lemma encode_decode_blocks:
  "decode_blocks bs = Some cs \<Longrightarrow> list_all (\<lambda>c. \<not> framing_anomaly c) cs \<Longrightarrow>
   concat (map encode_component cs) = bs"
  by (induction bs arbitrary: cs rule: decode_blocks.induct)
    (auto simp: encode_component_def component_byte_of split: if_splits)

lemma battery_shape_split:
  "battery_shape p \<Longrightarrow> p = [0x04, 0x00, 0x04, 0x00, 0x04, 0x00, p ! 6] @ drop 7 p"
  using Cons_nth_drop_Suc [of 6 p] append_take_drop_id [of 6 p]
  by (auto simp: battery_shape_def)

lemma decode_report_SomeD:
  assumes "decode_report p = Some r"
  shows "battery_shape p" and "decode_blocks (drop 7 p) = Some (components r)"
    and "length (components r) = unat (p ! 6)" and "report_ok r"
proof -
  show shape: "battery_shape p" and blocks: "decode_blocks (drop 7 p) = Some (components r)"
    using assms by (auto simp: decode_report_def split: if_splits)
  have "length (drop 7 p) = 5 * unat (p ! 6)" using shape by (simp add: battery_shape_def)
  with decode_blocks_length [OF blocks] show len: "length (components r) = unat (p ! 6)" by simp
  have "unat (p ! 6) < 256" using unsigned_less [of "p ! 6"] by simp
  with len decode_blocks_ok [OF blocks] show "report_ok r" by (simp add: report_ok_def)
qed

lemma encode_decode_report:
  assumes "decode_report p = Some r" and "list_all (\<lambda>c. \<not> framing_anomaly c) (components r)"
  shows "encode_report r = p"
proof -
  note D = decode_report_SomeD [OF assms(1)]
  have "encode_report r = [0x04, 0x00, 0x04, 0x00, 0x04, 0x00, p ! 6] @ drop 7 p"
    using D(3) encode_decode_blocks [OF D(2) assms(2)] by (simp add: encode_report_def)
  with battery_shape_split [OF D(1)] show ?thesis by simp
qed

lemma parse_battery_report_ok: "parse_battery p = Some r \<Longrightarrow> report_ok r"
  by (simp add: parse_battery_decode decode_report_SomeD(4))

lemma report_ok_component: "report_ok r \<Longrightarrow> c \<in> set (components r) \<Longrightarrow> component_ok c"
  by (simp add: report_ok_def list_all_iff)

lemma component_ok_level: "component_ok c \<Longrightarrow> level c = Some v \<Longrightarrow> v \<le> 100 \<and> v = raw_level c"
  by (auto simp: component_ok_def believed_def split: if_splits)

section \<open>Refusals\<close>

fun known_blocks :: "bytes \<Rightarrow> bool" where
  "known_blocks [] = True"
| "known_blocks (c # sp # l # st # e # rest) = (known_component c \<and> known_blocks rest)"
| "known_blocks _ = False"

lemma decode_blocks_None: "decode_blocks bs = None \<longleftrightarrow> \<not> known_blocks bs"
  by (induction bs rule: decode_blocks.induct) simp_all

lemma decode_report_None:
  "decode_report p = None \<longleftrightarrow> \<not> battery_shape p \<or> \<not> known_blocks (drop 7 p)"
  by (simp add: decode_report_def decode_blocks_None)

section \<open>Lookups and text\<close>

lemma find_in_None: "find_in cs c = None \<longleftrightarrow> c \<notin> component ` set cs"
  by (induction cs) auto

lemma find_in_find: "find_in cs c = List.find (\<lambda>x. component x = c) cs"
  by (induction cs) auto

lemma find_in_first:
  "find_in cs c = Some x \<longleftrightarrow>
   (\<exists>i < length cs. x = cs ! i \<and> component x = c \<and> (\<forall>j < i. component (cs ! j) \<noteq> c))"
  by (auto simp: find_in_find find_Some_iff)

lemma status_name_short: "length (status_name s) \<le> 12"
  by (cases s) simp_all

lemma component_name_short: "length (component_name c) \<le> 5"
  by (cases c) simp_all

definition component_text :: "battery_component \<Rightarrow> string" where
  "component_text c = component_name (component c)
     @ (case level c of
          Some l \<Rightarrow> '' '' @ fmt_u (unat l) @ ''% ('' @ status_name (status c) @ '')''
        | None \<Rightarrow> '' --% ('' @ status_name (status c) @ '', raw 0x'' @ fmt_02X (raw_level c) @ '')'')
     @ (if framing_anomaly c then '' [FRAMING ANOMALY]'' else '''')"

lemma component_to_string_text: "component_to_string c = component_text c"
proof (cases "level c")
  case None
  then show ?thesis
    using status_name_short [of "status c"] component_name_short [of "component c"]
    by (simp add: component_to_string_def component_text_def snprintf_c_fits)
next
  case (Some l)
  then show ?thesis
    using status_name_short [of "status c"] component_name_short [of "component c"]
      length_fmt_u_byte [of l]
    by (simp add: component_to_string_def component_text_def snprintf_c_fits)

qed

section \<open>Properties\<close>

lemma nth_block:
  "(c # sp # l # st # e # rest) ! (5 * Suc i) = rest ! (5 * i)"
  "(c # sp # l # st # e # rest) ! (5 * Suc i + j) = rest ! (5 * i + j)"
proof -
  have "5 * Suc i = Suc (Suc (Suc (Suc (Suc (5 * i)))))" by simp
  then show "(c # sp # l # st # e # rest) ! (5 * Suc i) = rest ! (5 * i)"
    "(c # sp # l # st # e # rest) ! (5 * Suc i + j) = rest ! (5 * i + j)" by simp_all
qed

lemma decode_blocks_nth:
  "decode_blocks bs = Some cs \<Longrightarrow> i < length cs \<Longrightarrow>
   cs ! i = \<lparr>component = component_of (bs ! (5 * i)), status = charge_status_of (bs ! (5 * i + 3)),
             level = believed (charge_status_of (bs ! (5 * i + 3))) (bs ! (5 * i + 2)),
             raw_level = bs ! (5 * i + 2),
             framing_anomaly = (bs ! (5 * i + 1) \<noteq> 1 \<or> bs ! (5 * i + 4) \<noteq> 1)\<rparr>"
proof (induction bs arbitrary: cs i rule: decode_blocks.induct)
  case (2 c sp l st e rest)
  obtain cs' where cs': "decode_blocks rest = Some cs'" "known_component c"
    using "2.prems"(1) by (auto split: if_splits)
  show ?case
  proof (cases i)
    case 0
    then show ?thesis using "2.prems" cs' by auto
  next
    case (Suc n)
    then have n: "n < length cs'" "cs ! Suc n = cs' ! n" using "2.prems" cs' by auto
    show ?thesis unfolding Suc n(2) nth_block by (rule "2.IH" [OF cs'(2,1) n(1)])
  qed
qed auto

lemma known_blocks_nth:
  "known_blocks bs \<Longrightarrow> decode_blocks bs = Some cs \<Longrightarrow> i < length cs \<Longrightarrow> known_component (bs ! (5 * i))"
proof (induction bs arbitrary: cs i rule: decode_blocks.induct)
  case (2 c sp l st e rest)
  obtain cs' where cs': "decode_blocks rest = Some cs'" "known_component c"
    using "2.prems"(2) by (auto split: if_splits)
  show ?case
  proof (cases i)
    case 0
    then show ?thesis using cs' by simp
  next
    case (Suc n)
    then have "n < length cs'" "known_blocks rest" using "2.prems" cs' by auto
    with "2.IH" [OF cs'(2)] cs'(1) show ?thesis unfolding Suc nth_block by blast
  qed
qed auto

text \<open>
  C9: The parser never reads outside the packet, whatever its bytes, and is total: the checked
  parser, whose every indexing can fail, returns what the reference decoder returns, and the
  program's parser is it.
\<close>

theorem parser_in_bounds:
  "parse_battery_checked p = Inr (decode_report p) \<and> parse_battery p = decode_report p"
  by (simp add: parse_battery_checked_ok parse_battery_decode)

text \<open>
  C38: A report is refused exactly when the packet is not a battery packet of the declared
  shape (the six header and opcode bytes, a count, and five bytes for each of the count's
  blocks and none left over) or some block names no component; one unknown block refuses the
  whole packet.
\<close>

theorem parse_refused_iff:
  "parse_battery p = None \<longleftrightarrow>
     \<not> (prefix [0x04, 0x00, 0x04, 0x00, 0x04, 0x00] p \<and> 6 < length p
        \<and> length p = 7 + 5 * unat (p ! 6) \<and> known_blocks (drop 7 p))"
proof -
  have "prefix [0x04, 0x00, 0x04, 0x00, 0x04, 0x00] p \<longleftrightarrow> take 6 p = [0x04, 0x00, 0x04, 0x00, 0x04, 0x00]"
    using take_is_prefix [of 6 p] by (auto simp: prefix_def)
  then show ?thesis by (auto simp: parse_battery_decode decode_report_None battery_shape_def)
qed

text \<open>
  C10: Every component of an accepted report is its block of five bytes: the raw level is always
  the byte that arrived, and a percentage is believed exactly when the component is not
  disconnected and the byte is at most 100. In particular a disconnected case with level byte 0
  or 0xFF has no percentage.
\<close>

theorem level_believed_iff:
  assumes "parse_battery p = Some r" and "i < length (components r)"
  shows "length (components r) = unat (p ! 6) \<and>
    (let b = 7 + 5 * i; c = components r ! i; st = charge_status_of (p ! (b + 3)) in
       component_byte (component c) = p ! b \<and> status c = st \<and> raw_level c = p ! (b + 2)
       \<and> level c = (if st \<noteq> Disconnected \<and> p ! (b + 2) \<le> 100 then Some (p ! (b + 2)) else None)
       \<and> framing_anomaly c = (p ! (b + 1) \<noteq> 1 \<or> p ! (b + 4) \<noteq> 1))"
proof -
  note D = decode_report_SomeD [OF assms(1) [unfolded parse_battery_decode]]
  have len: "length p = 7 + 5 * length (components r)" using D(1,3) by (simp add: battery_shape_def)
  have nth: "drop 7 p ! (5 * i + j) = p ! (7 + 5 * i + j)" for j
    using len assms(2) by (simp add: nth_drop add.assoc)
  have "known_blocks (drop 7 p)" using D(2) decode_blocks_None by (metis option.distinct(1))
  then have "known_component (drop 7 p ! (5 * i))" using D(2) assms(2) by (rule known_blocks_nth)
  then have "component_byte (component_of (p ! (7 + 5 * i))) = p ! (7 + 5 * i)"
    using component_byte_of nth [of 0] by simp
  then show ?thesis
    using decode_blocks_nth [OF D(2) assms(2)] D(3) nth [of 0] nth [of 1] nth [of 2] nth [of 3] nth [of 4]
    by (simp add: Let_def believed_def)
qed

text \<open>A packet with the shape of a real capture: two pods, and a case that gives no reading.\<close>

definition sample_packet :: bytes where
  "sample_packet = [0x04, 0x00, 0x04, 0x00, 0x04, 0x00, 0x03,
     0x04, 0x01, 0x60, 0x02, 0x01,  0x02, 0x01, 0x5E, 0x01, 0x01,  0x08, 0x01, 0xFF, 0x04, 0x01]"

definition sample_report :: battery_report where
  "sample_report = \<lparr>components =
     [\<lparr>component = Left, status = Discharging, level = Some 96, raw_level = 96, framing_anomaly = False\<rparr>,
      \<lparr>component = Right, status = Charging, level = Some 94, raw_level = 94, framing_anomaly = False\<rparr>,
      \<lparr>component = Case, status = Disconnected, level = None, raw_level = 0xFF, framing_anomaly = False\<rparr>]\<rparr>"

lemma parse_sample: "parse_battery sample_packet = Some sample_report"
  unfolding parse_battery_decode sample_packet_def sample_report_def by code_simp

theorem level_believed_iff_witness:
  "parse_battery sample_packet = Some sample_report \<and> level (components sample_report ! 2) = None
   \<and> raw_level (components sample_report ! 2) = 0xFF"
proof -
  have "2 < length (components sample_report)" by (simp add: sample_report_def)
  from level_believed_iff [OF parse_sample this]
  have "level (components sample_report ! 2) = None" "raw_level (components sample_report ! 2) = 0xFF"
    by (simp_all add: sample_packet_def charge_status_of_def Let_def)
  with parse_sample show ?thesis by blast
qed

text \<open>
  C11: Encoding a report of believed levels and clean framing and parsing the packet gives the
  report back, so two such reports with the same packet are equal.
\<close>

theorem battery_roundtrip:
  assumes "report_clean r"
  shows "parse_battery (encode_report r) = Some r
    \<and> (encode_report r = encode_report r' \<and> report_clean r' \<longleftrightarrow> r = r')"
  using assms wire.decode_encode wire.encode_inject by blast

theorem battery_roundtrip_witness:
  "encode_report sample_report = sample_packet \<and> parse_battery (encode_report sample_report) = Some sample_report"
proof -
  have "report_clean sample_report"
    by (simp add: sample_report_def report_clean_def report_ok_def component_ok_def charge_status_of_def believed_def)
  from battery_roundtrip [OF this, of sample_report] show ?thesis
    by (simp add: encode_report_def encode_component_def sample_report_def sample_packet_def)
qed

text \<open>
  In the other direction, an accepted packet is the encoding of its report when no block
  had a framing surprise: the report keeps everything the packet said.
\<close>

lemma report_keeps_packet:
  assumes "parse_battery p = Some r" and "list_all (\<lambda>c. \<not> framing_anomaly c) (components r)"
  shows "encode_report r = p"
  using assms by (simp add: parse_battery_decode encode_decode_report)

lemma report_keeps_packet_witness:
  "encode_report sample_report = sample_packet"
  by (rule report_keeps_packet [OF parse_sample]) (simp add: sample_report_def)

text \<open>
  Looking a component up gives the first one of that kind, and nothing exactly when the
  packet had none.
\<close>

lemma find_first_component:
  "(report_find r c = Some x \<longleftrightarrow>
      (\<exists>i < length (components r). x = components r ! i \<and> component x = c
         \<and> c \<notin> component ` set (take i (components r))))
   \<and> (report_find r c = None \<longleftrightarrow> c \<notin> component ` set (components r))"
proof -
  have "(\<forall>j < i. component (components r ! j) \<noteq> c) \<longleftrightarrow> c \<notin> component ` set (take i (components r))"
    if "i < length (components r)" for i
    using that nth_image [of i "components r", symmetric] by auto
  then show ?thesis unfolding report_find_def find_in_first find_in_None by blast
qed

text \<open>
  The text of a component is never cut by its 96-byte buffer, and shows \<open>--%\<close> with the raw
  byte exactly when there is no believed level, never a number in its place.
\<close>

lemma component_text_uncut: "component_to_string c = component_text c"
  by (rule component_to_string_text)

end
