(* ===== verification/Session.thy ===== *)
theory Session
  imports Aap_Socket Aap_Battery
begin

text \<open>
  The AAP conversation: \<open>lib/include/airprobe/session.h\<close> and \<open>lib/src/session.cpp\<close>. A session
  is a socket with the handshake state, the read buffer and the battery cache; \<open>session_step\<close>
  is one call of \<open>Session::step\<close>, built from its sections in their order. The packet hook of
  the consumer is an argument of every operation that can call it; what the session relies
  on is the locale \<open>packet_hook\<close>. The lemmas show the order of the packets sent on a
  connection, the agreement of phase and socket, what happens to the cache, and that a
  missing acknowledgement never holds the sequence up.
\<close>

section \<open>Configuration, phases, state\<close>

record config =
  host_caps :: bytes
  notify_request :: bytes
  ack_driven :: bool
  send_handshake :: bool
  require_security :: bool
  ack_timeout_ms :: int
  notify_resend_ms :: int

definition config_defaults :: config where
  "config_defaults =
     \<lparr>host_caps = kHostCapsD7, notify_request = kRequestNotify5, ack_driven = True,
      send_handshake = True, require_security = True, ack_timeout_ms = 2000,
      notify_resend_ms = 2000\<rparr>"

datatype phase = Closed | WaitHandshakeAck | WaitFeaturesAck | Listening

fun phase_name :: "phase \<Rightarrow> string" where
  "phase_name Closed = ''closed''"
| "phase_name WaitHandshakeAck = ''wait-handshake-ack''"
| "phase_name WaitFeaturesAck = ''wait-features-ack''"
| "phase_name Listening = ''listening''"

datatype direction = Sent | Received

text \<open>Time points are nanoseconds of the steady clock; 0 is a default time point.\<close>

record session = aap_socket +
  s_cfg :: config
  s_phase :: phase
  s_started :: int
  s_phase_at :: int
  s_buf :: bytes
  s_last_battery :: "battery_report option"
  s_battery_at :: int
  s_battery_seen :: bool
  s_refusals :: int
  s_notify_sent_at :: int
  s_notify_resent :: bool

type_synonym 'z hook =
  "(direction \<Rightarrow> bytes \<Rightarrow> string option \<Rightarrow> 'z session_scheme \<Rightarrow> 'z session_scheme) option"

definition new_session :: "config \<Rightarrow> session" where
  "new_session c = \<lparr>w_ix = 0, w_trace = [], sock_fd = -1, s_cfg = c, s_phase = Closed, s_started = 0,
     s_phase_at = 0, s_buf = [], s_last_battery = None, s_battery_at = 0, s_battery_seen = False,
     s_refusals = 0, s_notify_sent_at = -1, s_notify_resent = False\<rparr>"

record step_out =
  st_packet :: bool
  st_battery :: bool
  st_closed :: bool
  st_phase_changed :: bool
  st_note :: "string option"
  st_bytes :: bytes

definition empty_step :: step_out where
  "empty_step = \<lparr>st_packet = False, st_battery = False, st_closed = False, st_phase_changed = False,
                 st_note = None, st_bytes = []\<rparr>"

definition step_idle :: "step_out \<Rightarrow> bool" where
  "step_idle o' \<longleftrightarrow> \<not> st_packet o' \<and> \<not> st_closed o' \<and> \<not> st_phase_changed o' \<and> st_note o' = None"

section \<open>Operations\<close>

text \<open>\<open>duration_cast\<close> truncates towards zero.\<close>

definition ms_between :: "int \<Rightarrow> int \<Rightarrow> int" where
  "ms_between a b = (b - a) sdiv 1000000"

definition now :: "os \<Rightarrow> 'z world_scheme \<Rightarrow> int \<times> 'z world_scheme" where
  "now os s = (os_now os (w_ix s), tick_ix s)"

definition call_hook ::
    "'z hook \<Rightarrow> direction \<Rightarrow> bytes \<Rightarrow> string option \<Rightarrow> 'z session_scheme \<Rightarrow> 'z session_scheme" where
  "call_hook hook d bs what s = (case hook of None \<Rightarrow> s | Some h \<Rightarrow> h d bs what s)"

definition emit ::
    "os \<Rightarrow> 'z hook \<Rightarrow> bytes \<Rightarrow> string \<Rightarrow> 'z session_scheme \<Rightarrow> bool \<times> 'z session_scheme" where
  "emit os hook bs what s =
    (if bs = [] then (True, s)
     else let (sent, s) = send_packet os bs s in
       if \<not> sent then (False, s) else (True, call_hook hook Sent bs (Some what) s))"

definition send_caps :: "os \<Rightarrow> 'z hook \<Rightarrow> 'z session_scheme \<Rightarrow> bool \<times> 'z session_scheme" where
  "send_caps os hook s = emit os hook (host_caps (s_cfg s)) ''host-capabilities'' s"

definition elapsed_ms :: "os \<Rightarrow> 'z session_scheme \<Rightarrow> int \<times> 'z session_scheme" where
  "elapsed_ms os s =
    (if s_phase s = Closed \<and> s_started s = 0 then (0, s)
     else let (t, s) = now os s in (ms_between (s_started s) t, s))"

definition send_notify :: "os \<Rightarrow> 'z hook \<Rightarrow> 'z session_scheme \<Rightarrow> bool \<times> 'z session_scheme" where
  "send_notify os hook s =
    (let (sent, s) = emit os hook (notify_request (s_cfg s)) ''request-notifications'' s in
     if \<not> sent then (False, s)
     else let (t, s) = elapsed_ms os s in (True, s\<lparr>s_notify_sent_at := t\<rparr>))"

definition enter :: "os \<Rightarrow> phase \<Rightarrow> 'z session_scheme \<Rightarrow> 'z session_scheme" where
  "enter os p s = (let (t, s) = now os s in s\<lparr>s_phase := p, s_phase_at := t\<rparr>)"

definition battery_age_ms :: "os \<Rightarrow> 'z session_scheme \<Rightarrow> int \<times> 'z session_scheme" where
  "battery_age_ms os s =
    (if s_last_battery s = None then (-1, s)
     else let (t, s) = now os s in (ms_between (s_battery_at s) t, s))"

definition session_close :: "'z session_scheme \<Rightarrow> 'z session_scheme" where
  "session_close s = (sock_close s)\<lparr>s_phase := Closed\<rparr>"

text \<open>
  \<open>Session::open\<close> in three parts: the bookkeeping that is reset per connection, the sequence
  fired up front when no acknowledgement is waited for, and the whole.
\<close>

definition open_reset :: "os \<Rightarrow> 'z session_scheme \<Rightarrow> 'z session_scheme" where
  "open_reset os s =
    (let (t, s) = now os s;
         s = s\<lparr>s_started := t\<rparr>;
         s = s\<lparr>s_battery_seen := False, s_notify_resent := False, s_notify_sent_at := -1\<rparr>
     in enter os WaitHandshakeAck s)"

definition open_upfront ::
    "os \<Rightarrow> 'z hook \<Rightarrow> connect_result \<Rightarrow> 'z session_scheme \<Rightarrow> connect_result \<times> 'z session_scheme" where
  "open_upfront os hook result s =
    (let s = log_ev (SysSleep 200) s; (sent, s) = send_caps os hook s in
     if \<not> sent then (result\<lparr>ok := False\<rparr>, session_close s)
     else let s = (if host_caps (s_cfg s) \<noteq> [] then log_ev (SysSleep 200) s else s);
              (sent, s) = send_notify os hook s in
     if \<not> sent then (result\<lparr>ok := False\<rparr>, session_close s)
     else (result, enter os Listening s))"

definition session_open ::
    "os \<Rightarrow> 'z hook \<Rightarrow> string \<Rightarrow> 'z session_scheme \<Rightarrow> connect_result \<times> 'z session_scheme" where
  "session_open os hook mac s =
    (let (result, s) = connect_to os mac (require_security (s_cfg s)) s in
     if \<not> ok result then (result, s)
     else let s = open_reset os s;
              (sent, s) = (if send_handshake (s_cfg s) then emit os hook kHandshake ''handshake'' s
                           else (True, s)) in
     if \<not> sent
     then (result\<lparr>ok := False,
                  diagnosis := ''channel opened but the handshake could not be written''\<rparr>,
           session_close s)
     else if \<not> ack_driven (s_cfg s) \<or> \<not> send_handshake (s_cfg s)
     then open_upfront os hook result s
     else (result, s))"

subsection \<open>One step, section by section\<close>

definition fail_closed :: "step_out \<Rightarrow> 'z session_scheme \<Rightarrow> step_out \<times> 'z session_scheme" where
  "fail_closed o' s = (o'\<lparr>st_closed := True\<rparr>, session_close s)"

definition keep_note :: "string \<Rightarrow> step_out \<Rightarrow> step_out" where
  "keep_note t o' = (if st_note o' = None then o'\<lparr>st_note := Some t\<rparr> else o')"

definition step_timeout :: "os \<Rightarrow> 'z hook \<Rightarrow> step_out \<Rightarrow> 'z session_scheme \<Rightarrow> step_out \<times> 'z session_scheme" where
  "step_timeout os hook o' s =
    (if s_phase s \<noteq> Listening \<and> s_phase s \<noteq> Closed then
       let (t, s) = now os s in
       if ack_timeout_ms (s_cfg s) < ms_between (s_phase_at s) t then
         (if s_phase s = WaitHandshakeAck then
            let o' = o'\<lparr>st_note := Some ''TIMEOUT waiting for handshake-ack''\<rparr>;
                (sent, s) = send_caps os hook s in
            if \<not> sent then fail_closed o' s
            else let s = enter os (if host_caps (s_cfg s) = [] then Listening else WaitFeaturesAck) s in
              if s_phase s = Listening then
                let (sent, s) = send_notify os hook s in
                if \<not> sent then fail_closed o' s else (o'\<lparr>st_phase_changed := True\<rparr>, s)
              else (o'\<lparr>st_phase_changed := True\<rparr>, s)
          else
            let o' = o'\<lparr>st_note := Some ''TIMEOUT waiting for features-ack (opcode 0x2B)''\<rparr>;
                (sent, s) = send_notify os hook s in
            if \<not> sent then fail_closed o' s
            else (o'\<lparr>st_phase_changed := True\<rparr>, enter os Listening s))
       else (o', s)
     else (o', s))"

definition step_resend :: "os \<Rightarrow> 'z hook \<Rightarrow> step_out \<Rightarrow> 'z session_scheme \<Rightarrow> step_out \<times> 'z session_scheme" where
  "step_resend os hook o' s =
    (if s_phase s = Listening \<and> \<not> s_battery_seen s \<and> \<not> s_notify_resent s
        \<and> 0 \<le> notify_resend_ms (s_cfg s) \<and> 0 \<le> s_notify_sent_at s then
       let (t, s) = elapsed_ms os s in
       if notify_resend_ms (s_cfg s) \<le> t - s_notify_sent_at s then
         let o' = keep_note ''re-sending notification request (no battery yet)'' o';
             (sent, s) = send_notify os hook (s\<lparr>s_notify_resent := True\<rparr>) in
         if \<not> sent then fail_closed o' s else (o', s)
       else (o', s)
     else (o', s))"

definition step_battery :: "os \<Rightarrow> step_out \<Rightarrow> 'z session_scheme \<Rightarrow> step_out \<times> 'z session_scheme" where
  "step_battery os o' s =
    (if opcode_of (st_bytes o') = kOpBattery then
       let s = s\<lparr>s_battery_seen := True\<rparr> in
       case parse_battery (st_bytes o') of
         Some report \<Rightarrow>
           let (t, s) = now os s in
           (o'\<lparr>st_battery := True\<rparr>, s\<lparr>s_last_battery := Some report, s_battery_at := t\<rparr>)
       | None \<Rightarrow>
           (keep_note ''PARSE REFUSED on an opcode 0x04 packet'' o',
            s\<lparr>s_refusals := s_refusals s + 1\<rparr>)
     else (o', s))"

definition step_transition :: "os \<Rightarrow> 'z hook \<Rightarrow> step_out \<Rightarrow> 'z session_scheme \<Rightarrow> step_out \<times> 'z session_scheme" where
  "step_transition os hook o' s =
    (if s_phase s = WaitHandshakeAck \<and> is_handshake_ack (st_bytes o') then
       let (sent, s) = send_caps os hook s in
       if \<not> sent then fail_closed o' s
       else let s = enter os (if host_caps (s_cfg s) = [] then Listening else WaitFeaturesAck) s;
                o' = o'\<lparr>st_phase_changed := True\<rparr> in
         if s_phase s = Listening then
           let (sent, s) = send_notify os hook s in
           if \<not> sent then fail_closed o' s else (o', s)
         else (o', s)
     else if s_phase s = WaitFeaturesAck \<and> opcode_of (st_bytes o') = kOpFeaturesAck then
       let (sent, s) = send_notify os hook s in
       if \<not> sent then fail_closed o' s
       else (o'\<lparr>st_phase_changed := True\<rparr>, enter os Listening s)
     else (o', s))"

definition step_received :: "os \<Rightarrow> 'z hook \<Rightarrow> step_out \<Rightarrow> 'z session_scheme \<Rightarrow> step_out \<times> 'z session_scheme" where
  "step_received os hook o' s =
    (let o' = o'\<lparr>st_packet := True, st_bytes := s_buf s\<rparr>;
         s = call_hook hook Received (st_bytes o') None s;
         (o', s) = step_battery os o' s
     in step_transition os hook o' s)"

definition step_read :: "os \<Rightarrow> 'z hook \<Rightarrow> int \<Rightarrow> step_out \<Rightarrow> 'z session_scheme \<Rightarrow> step_out \<times> 'z session_scheme" where
  "step_read os hook tmo o' s =
    (let (n, buf, s) = read_packet os tmo (s_buf s) s; s = s\<lparr>s_buf := buf\<rparr> in
     if n < 0 then (keep_note ''channel closed by peer'' (o'\<lparr>st_closed := True\<rparr>), session_close s)
     else if n = 0 then (o', s)
     else step_received os hook o' s)"

definition session_step :: "os \<Rightarrow> 'z hook \<Rightarrow> int \<Rightarrow> 'z session_scheme \<Rightarrow> step_out \<times> 'z session_scheme" where
  "session_step os hook tmo s =
    (if \<not> is_open s then (empty_step\<lparr>st_closed := True\<rparr>, s)
     else let (o', s) = step_timeout os hook empty_step s in
     if st_closed o' then (o', s)
     else let (o', s) = step_resend os hook o' s in
     if st_closed o' then (o', s)
     else step_read os hook tmo o' s)"

section \<open>Frame facts\<close>

lemma now_sels [simp]: "fst (now os s) = os_now os (w_ix s)" "snd (now os s) = tick_ix s"
  by (simp_all add: now_def)

lemma world_session_sels [simp]:
  fixes s :: "'z session_scheme"
  shows "s_cfg (tick_ix s) = s_cfg s" "s_phase (tick_ix s) = s_phase s"
    "s_started (tick_ix s) = s_started s" "s_phase_at (tick_ix s) = s_phase_at s"
    "s_buf (tick_ix s) = s_buf s" "s_last_battery (tick_ix s) = s_last_battery s"
    "s_battery_at (tick_ix s) = s_battery_at s" "s_battery_seen (tick_ix s) = s_battery_seen s"
    "s_refusals (tick_ix s) = s_refusals s" "s_notify_sent_at (tick_ix s) = s_notify_sent_at s"
    "s_notify_resent (tick_ix s) = s_notify_resent s"
    "s_cfg (log_ev e s) = s_cfg s" "s_phase (log_ev e s) = s_phase s"
    "s_started (log_ev e s) = s_started s" "s_phase_at (log_ev e s) = s_phase_at s"
    "s_buf (log_ev e s) = s_buf s" "s_last_battery (log_ev e s) = s_last_battery s"
    "s_battery_at (log_ev e s) = s_battery_at s" "s_battery_seen (log_ev e s) = s_battery_seen s"
    "s_refusals (log_ev e s) = s_refusals s" "s_notify_sent_at (log_ev e s) = s_notify_sent_at s"
    "s_notify_resent (log_ev e s) = s_notify_resent s"
  by (simp_all add: tick_ix_def log_ev_def)

lemma sock_close_session_sels [simp]:
  fixes s :: "'z session_scheme"
  shows "s_cfg (sock_close s) = s_cfg s" "s_phase (sock_close s) = s_phase s"
    "s_last_battery (sock_close s) = s_last_battery s" "s_battery_at (sock_close s) = s_battery_at s"
    "s_battery_seen (sock_close s) = s_battery_seen s" "s_refusals (sock_close s) = s_refusals s"
    "s_notify_sent_at (sock_close s) = s_notify_sent_at s"
    "s_notify_resent (sock_close s) = s_notify_resent s" "s_buf (sock_close s) = s_buf s"
    "s_started (sock_close s) = s_started s" "s_phase_at (sock_close s) = s_phase_at s"
  by (simp_all add: sock_close_def)

lemma session_close_sels [simp]:
  "s_phase (session_close s) = Closed" "w_trace (session_close s) = w_trace (sock_close s)"
  "sock_fd (session_close s) = (if 0 \<le> sock_fd s then -1 else sock_fd s)"
  "s_cfg (session_close s) = s_cfg s" "s_last_battery (session_close s) = s_last_battery s"
  "s_battery_at (session_close s) = s_battery_at s" "s_refusals (session_close s) = s_refusals s"
  "s_battery_seen (session_close s) = s_battery_seen s"
  "s_notify_resent (session_close s) = s_notify_resent s"
  "\<not> is_open (session_close s)"
  by (simp_all add: session_close_def is_open_def)

lemma connect_to_session_sels [simp]:
  fixes s :: "'z session_scheme"
  shows "s_cfg (snd (connect_to os mac sec s)) = s_cfg s"
    "s_phase (snd (connect_to os mac sec s)) = s_phase s"
    "s_last_battery (snd (connect_to os mac sec s)) = s_last_battery s"
    "s_battery_at (snd (connect_to os mac sec s)) = s_battery_at s"
    "s_refusals (snd (connect_to os mac sec s)) = s_refusals s"
    "s_battery_seen (snd (connect_to os mac sec s)) = s_battery_seen s"
    "s_notify_resent (snd (connect_to os mac sec s)) = s_notify_resent s"
  using connect_to_upd [of os mac sec s] by auto

lemma send_packet_session_sels [simp]:
  fixes s :: "'z session_scheme"
  shows "s_cfg (snd (send_packet os bs s)) = s_cfg s"
    "s_phase (snd (send_packet os bs s)) = s_phase s"
    "s_started (snd (send_packet os bs s)) = s_started s"
    "s_phase_at (snd (send_packet os bs s)) = s_phase_at s"
    "s_buf (snd (send_packet os bs s)) = s_buf s"
    "s_last_battery (snd (send_packet os bs s)) = s_last_battery s"
    "s_battery_at (snd (send_packet os bs s)) = s_battery_at s"
    "s_battery_seen (snd (send_packet os bs s)) = s_battery_seen s"
    "s_refusals (snd (send_packet os bs s)) = s_refusals s"
    "s_notify_sent_at (snd (send_packet os bs s)) = s_notify_sent_at s"
    "s_notify_resent (snd (send_packet os bs s)) = s_notify_resent s"
  using send_packet_upd [of os bs s] by auto

lemma read_packet_session_sels [simp]:
  fixes s :: "'z session_scheme"
  shows "s_cfg (snd (snd (read_packet os tmo out s))) = s_cfg s"
    "s_phase (snd (snd (read_packet os tmo out s))) = s_phase s"
    "s_started (snd (snd (read_packet os tmo out s))) = s_started s"
    "s_phase_at (snd (snd (read_packet os tmo out s))) = s_phase_at s"
    "s_last_battery (snd (snd (read_packet os tmo out s))) = s_last_battery s"
    "s_battery_at (snd (snd (read_packet os tmo out s))) = s_battery_at s"
    "s_battery_seen (snd (snd (read_packet os tmo out s))) = s_battery_seen s"
    "s_refusals (snd (snd (read_packet os tmo out s))) = s_refusals s"
    "s_notify_sent_at (snd (snd (read_packet os tmo out s))) = s_notify_sent_at s"
    "s_notify_resent (snd (snd (read_packet os tmo out s))) = s_notify_resent s"
  using read_packet_upd [of os tmo out s] by auto

lemma elapsed_ms_sels [simp]:
  "w_trace (snd (elapsed_ms os s)) = w_trace s" "sock_fd (snd (elapsed_ms os s)) = sock_fd s"
  "s_cfg (snd (elapsed_ms os s)) = s_cfg s" "s_phase (snd (elapsed_ms os s)) = s_phase s"
  "s_started (snd (elapsed_ms os s)) = s_started s"
  "s_phase_at (snd (elapsed_ms os s)) = s_phase_at s" "s_buf (snd (elapsed_ms os s)) = s_buf s"
  "s_last_battery (snd (elapsed_ms os s)) = s_last_battery s"
  "s_battery_at (snd (elapsed_ms os s)) = s_battery_at s"
  "s_battery_seen (snd (elapsed_ms os s)) = s_battery_seen s"
  "s_refusals (snd (elapsed_ms os s)) = s_refusals s"
  "s_notify_sent_at (snd (elapsed_ms os s)) = s_notify_sent_at s"
  "s_notify_resent (snd (elapsed_ms os s)) = s_notify_resent s"
  by (simp_all add: elapsed_ms_def now_def)

lemma enter_sels [simp]:
  "w_trace (enter os p s) = w_trace s" "sock_fd (enter os p s) = sock_fd s"
  "s_cfg (enter os p s) = s_cfg s" "s_phase (enter os p s) = p"
  "s_started (enter os p s) = s_started s" "s_buf (enter os p s) = s_buf s"
  "s_last_battery (enter os p s) = s_last_battery s" "s_battery_at (enter os p s) = s_battery_at s"
  "s_battery_seen (enter os p s) = s_battery_seen s" "s_refusals (enter os p s) = s_refusals s"
  "s_notify_sent_at (enter os p s) = s_notify_sent_at s"
  "s_notify_resent (enter os p s) = s_notify_resent s"
  by (simp_all add: enter_def now_def)

lemma is_open_sels [simp]:
  fixes s :: "'z session_scheme"
  shows "is_open (enter os p s) = is_open s" "is_open (tick_ix s) = is_open s"
    "is_open (log_ev e s) = is_open s" "is_open (snd (elapsed_ms os s)) = is_open s"
    "is_open (snd (send_packet os bs s)) = is_open s"
    "is_open (snd (snd (read_packet os tmo out s))) = is_open s"
  by (simp_all add: is_open_def)

section \<open>The consumer's hook\<close>

text \<open>
  What the session relies on: a hook may read the clock and change the state of its own
  program, and leaves the session alone. Everything below is proved once for such hooks.
\<close>

locale packet_hook =
  fixes hook :: "'z hook"
  assumes hook_frame: "hook = Some h \<Longrightarrow> \<exists>i m. h d bs what s = s\<lparr>w_ix := i, session.more := m\<rparr>"
begin

lemma call_hook_upd: "\<exists>i m. call_hook hook d bs what s = s\<lparr>w_ix := i, session.more := m\<rparr>"
proof (cases hook)
  case None
  have "s = s\<lparr>w_ix := w_ix s, session.more := session.more s\<rparr>" by simp
  with None show ?thesis unfolding call_hook_def by (metis option.case(1))
next
  case (Some h)
  with hook_frame [OF Some] show ?thesis by (simp add: call_hook_def)
qed

lemma call_hook_sels [simp]:
  "w_trace (call_hook hook d bs what s) = w_trace s" "sock_fd (call_hook hook d bs what s) = sock_fd s"
  "s_cfg (call_hook hook d bs what s) = s_cfg s" "s_phase (call_hook hook d bs what s) = s_phase s"
  "s_started (call_hook hook d bs what s) = s_started s"
  "s_phase_at (call_hook hook d bs what s) = s_phase_at s"
  "s_buf (call_hook hook d bs what s) = s_buf s"
  "s_last_battery (call_hook hook d bs what s) = s_last_battery s"
  "s_battery_at (call_hook hook d bs what s) = s_battery_at s"
  "s_battery_seen (call_hook hook d bs what s) = s_battery_seen s"
  "s_refusals (call_hook hook d bs what s) = s_refusals s"
  "s_notify_sent_at (call_hook hook d bs what s) = s_notify_sent_at s"
  "s_notify_resent (call_hook hook d bs what s) = s_notify_resent s"
  "is_open (call_hook hook d bs what s) = is_open s"
  using call_hook_upd [of d bs what s] by (auto simp: is_open_def)

lemma emit_sels [simp]:
  "sock_fd (snd (emit os hook bs what s)) = sock_fd s"
  "is_open (snd (emit os hook bs what s)) = is_open s"
  "s_cfg (snd (emit os hook bs what s)) = s_cfg s"
  "s_phase (snd (emit os hook bs what s)) = s_phase s"
  "s_started (snd (emit os hook bs what s)) = s_started s"
  "s_phase_at (snd (emit os hook bs what s)) = s_phase_at s"
  "s_buf (snd (emit os hook bs what s)) = s_buf s"
  "s_last_battery (snd (emit os hook bs what s)) = s_last_battery s"
  "s_battery_at (snd (emit os hook bs what s)) = s_battery_at s"
  "s_battery_seen (snd (emit os hook bs what s)) = s_battery_seen s"
  "s_refusals (snd (emit os hook bs what s)) = s_refusals s"
  "s_notify_sent_at (snd (emit os hook bs what s)) = s_notify_sent_at s"
  "s_notify_resent (snd (emit os hook bs what s)) = s_notify_resent s"
  by (simp_all add: emit_def case_prod_unfold Let_def)

lemma emit_trace:
  "w_trace (snd (emit os hook bs what s)) =
     w_trace s @ (if bs \<noteq> [] \<and> is_open s then [SysWrite (sock_fd s) bs (fst (os_write os (w_ix s)))] else [])"
  by (simp add: emit_def case_prod_unfold Let_def send_packet_trace)

lemma emit_ok:
  "fst (emit os hook bs what s) \<longleftrightarrow> bs = [] \<or> is_open s \<and> fst (os_write os (w_ix s)) = int (length bs)"
  by (simp add: emit_def case_prod_unfold Let_def send_packet_ok)

end

section \<open>What has been written on a connection\<close>

text \<open>
  The packets the kernel took whole, in order; \<open>since k\<close> looks at the trace from position \<open>k\<close>,
  which is where a connection was opened.
\<close>

primrec written :: "sys_event list \<Rightarrow> bytes list" where
  "written [] = []"
| "written (e # es) =
     (case e of SysWrite fd bs n \<Rightarrow> if n = int (length bs) then [bs] else [] | _ \<Rightarrow> []) @ written es"

definition since :: "nat \<Rightarrow> 'z world_scheme \<Rightarrow> bytes list" where
  "since k s = written (drop k (w_trace s))"

definition opt_packet :: "bytes \<Rightarrow> bytes list" where
  "opt_packet bs = (if bs = [] then [] else [bs])"

definition hello :: "config \<Rightarrow> bytes list" where
  "hello c = (if send_handshake c then [kHandshake] else [])"

definition script :: "config \<Rightarrow> bytes list" where
  "script c = hello c @ opt_packet (host_caps c) @ opt_packet (notify_request c)
              @ opt_packet (notify_request c)"

lemma written_append [simp]: "written (xs @ ys) = written xs @ written ys"
  by (induction xs) simp_all

text \<open>
  The invariant of a connection opened at trace position \<open>k\<close>: the phase says whether there is
  a socket, and which packets have gone out.
\<close>

definition progress :: "config \<Rightarrow> phase \<Rightarrow> bool \<Rightarrow> bytes list \<Rightarrow> bool" where
  "progress c p resent w =
    (case p of
       WaitHandshakeAck \<Rightarrow> w = hello c \<and> \<not> resent
     | WaitFeaturesAck \<Rightarrow> w = hello c @ opt_packet (host_caps c) \<and> \<not> resent
     | Listening \<Rightarrow> w = hello c @ opt_packet (host_caps c) @ opt_packet (notify_request c)
                       @ (if resent then opt_packet (notify_request c) else [])
     | Closed \<Rightarrow> prefix w (script c))"

definition session_inv :: "nat \<Rightarrow> 'z session_scheme \<Rightarrow> bool" where
  "session_inv k s \<longleftrightarrow>
     (s_phase s = Closed \<longleftrightarrow> \<not> is_open s) \<and> k \<le> length (w_trace s)
     \<and> progress (s_cfg s) (s_phase s) (s_notify_resent s) (since k s)"

lemma since_same [simp]:
  "since k (tick_ix s) = since k s"
  "k \<le> length (w_trace t) \<Longrightarrow> since k (sock_close t) = since k t"
  "k \<le> length (w_trace u) \<Longrightarrow> since k (session_close u) = since k u"
  "since k (snd (elapsed_ms os v)) = since k v"
  "since k (enter os p v) = since k v"
  by (auto simp: since_def)

lemma progress_closed: "progress c p r w \<Longrightarrow> progress c Closed r' w"
  by (cases p) (auto simp: progress_def script_def prefix_def)

lemma session_inv_close: "session_inv k s \<Longrightarrow> session_inv k (session_close s)"
  by (auto simp: session_inv_def dest: progress_closed)


context packet_hook
begin

lemma since_emit:
  "k \<le> length (w_trace s) \<Longrightarrow>
   since k (snd (emit os hook bs what s)) =
     since k s @ (if fst (emit os hook bs what s) then opt_packet bs else [])"
  by (simp add: since_def emit_trace emit_ok opt_packet_def)

lemma emit_trace_le [simp]: "k \<le> length (w_trace s) \<Longrightarrow> k \<le> length (w_trace (snd (emit os hook bs what s)))"
  by (simp add: emit_trace)

lemma send_notify_sels [simp]:
  "sock_fd (snd (send_notify os hook s)) = sock_fd s"
  "is_open (snd (send_notify os hook s)) = is_open s"
  "s_cfg (snd (send_notify os hook s)) = s_cfg s"
  "s_phase (snd (send_notify os hook s)) = s_phase s"
  "s_started (snd (send_notify os hook s)) = s_started s"
  "s_phase_at (snd (send_notify os hook s)) = s_phase_at s"
  "s_buf (snd (send_notify os hook s)) = s_buf s"
  "s_last_battery (snd (send_notify os hook s)) = s_last_battery s"
  "s_battery_at (snd (send_notify os hook s)) = s_battery_at s"
  "s_battery_seen (snd (send_notify os hook s)) = s_battery_seen s"
  "s_refusals (snd (send_notify os hook s)) = s_refusals s"
  "s_notify_resent (snd (send_notify os hook s)) = s_notify_resent s"
  by (simp_all add: send_notify_def case_prod_unfold Let_def is_open_def)

lemma send_notify_trace [simp]:
  "w_trace (snd (send_notify os hook s)) =
   w_trace (snd (emit os hook (notify_request (s_cfg s)) ''request-notifications'' s))"
  by (simp add: send_notify_def case_prod_unfold Let_def)

lemma send_notify_ok:
  "fst (send_notify os hook s) = fst (emit os hook (notify_request (s_cfg s)) ''request-notifications'' s)"
  by (simp add: send_notify_def case_prod_unfold Let_def)

lemma since_send_notify:
  "k \<le> length (w_trace s) \<Longrightarrow>
   since k (snd (send_notify os hook s)) =
     since k s @ (if fst (send_notify os hook s) then opt_packet (notify_request (s_cfg s)) else [])"
  using since_emit [of k s os] by (simp add: since_def send_notify_ok)

text \<open>The three ways the sequence advances, shared by the timeouts and the acknowledgements.\<close>

lemma progress_caps:
  "progress c WaitHandshakeAck r w \<Longrightarrow> host_caps c \<noteq> [] \<Longrightarrow>
   progress c WaitFeaturesAck r (w @ opt_packet (host_caps c))"
  by (simp add: progress_def)

lemma progress_notify:
  "progress c WaitFeaturesAck r w \<Longrightarrow> progress c Listening r (w @ opt_packet (notify_request c))"
  "progress c WaitHandshakeAck r w \<Longrightarrow> host_caps c = [] \<Longrightarrow>
   progress c Listening r (w @ opt_packet (notify_request c))"
  by (simp_all add: progress_def opt_packet_def)

lemma progress_resend:
  "progress c Listening False w \<Longrightarrow> progress c Listening True (w @ opt_packet (notify_request c))"
  by (simp add: progress_def)


end

lemma fail_closed_sels [simp]:
  "snd (fail_closed o' s) = session_close s" "st_closed (fst (fail_closed o' s))"
  by (simp_all add: fail_closed_def)

section \<open>Each section of a step keeps the invariant\<close>

text \<open>
  \<open>stage_ok\<close> is what every section of a step promises about its result: the invariant, and
  that the closed flag is set exactly when the socket has gone.
\<close>

definition stage_ok :: "nat \<Rightarrow> step_out \<times> 'z session_scheme \<Rightarrow> bool" where
  "stage_ok k r \<longleftrightarrow> session_inv k (snd r) \<and> st_closed (fst r) = (\<not> is_open (snd r))"

lemma stage_ok_fail_closed: "session_inv k s \<Longrightarrow> stage_ok k (fail_closed o' s)"
  by (simp add: stage_ok_def session_inv_close)

lemma session_inv_closeI:
  "k \<le> length (w_trace s) \<Longrightarrow> progress (s_cfg s) Closed (s_notify_resent s) (since k s) \<Longrightarrow>
   session_inv k (session_close s)"
  by (auto simp: session_inv_def)

lemma session_inv_enter:
  "is_open s \<Longrightarrow> k \<le> length (w_trace s) \<Longrightarrow> p \<noteq> Closed \<Longrightarrow>
   progress (s_cfg s) p (s_notify_resent s) (since k s) \<Longrightarrow> session_inv k (enter os p s)"
  by (simp add: session_inv_def)

lemma session_inv_tick [simp]: "session_inv k (tick_ix s) = session_inv k s"
  by (simp add: session_inv_def)

lemma session_inv_openD:
  "session_inv k s \<Longrightarrow> s_phase s \<noteq> Closed \<Longrightarrow> is_open s"
  "session_inv k s \<Longrightarrow> k \<le> length (w_trace s)"
  "session_inv k s \<Longrightarrow> progress (s_cfg s) (s_phase s) (s_notify_resent s) (since k s)"
  by (auto simp: session_inv_def)

context packet_hook
begin

lemma session_inv_failed_emit:
  "session_inv k s \<Longrightarrow> \<not> fst (emit os hook bs what s) \<Longrightarrow> session_inv k (snd (emit os hook bs what s))"
  by (simp add: session_inv_def since_emit)

lemma session_inv_failed_notify:
  "session_inv k s \<Longrightarrow> \<not> fst (send_notify os hook s) \<Longrightarrow> session_inv k (snd (send_notify os hook s))"
  by (simp add: session_inv_def since_send_notify)

text \<open>After the handshake: capabilities, then either wait for their acknowledgement or, with
  none to send, ask for notifications at once.\<close>

lemma after_handshake:
  assumes inv: "session_inv k s" and ph: "s_phase s = WaitHandshakeAck"
    and ok: "fst (send_caps os hook s)"
  defines "s1 \<equiv> snd (send_caps os hook s)"
  shows "host_caps (s_cfg s) \<noteq> [] \<Longrightarrow> session_inv k (enter os WaitFeaturesAck s1)"
    and "host_caps (s_cfg s) = [] \<Longrightarrow> fst (send_notify os hook (enter os Listening s1)) \<Longrightarrow>
         session_inv k (snd (send_notify os hook (enter os Listening s1)))"
    and "host_caps (s_cfg s) = [] \<Longrightarrow> \<not> fst (send_notify os hook (enter os Listening s1)) \<Longrightarrow>
         session_inv k (session_close (snd (send_notify os hook (enter os Listening s1))))"
proof -
  note D = session_inv_openD [OF inv]
  have op: "is_open s" and k: "k \<le> length (w_trace s)"
    and pr: "progress (s_cfg s) WaitHandshakeAck (s_notify_resent s) (since k s)"
    using D ph by auto
  have k1: "k \<le> length (w_trace s1)" using k by (simp add: s1_def send_caps_def)
  have w1: "since k s1 = since k s @ opt_packet (host_caps (s_cfg s))"
    using ok k by (simp add: s1_def send_caps_def since_emit)
  show "host_caps (s_cfg s) \<noteq> [] \<Longrightarrow> session_inv k (enter os WaitFeaturesAck s1)"
    using op k1 w1 progress_caps [OF pr] by (intro session_inv_enter) (simp_all add: s1_def send_caps_def)
  {
    assume none: "host_caps (s_cfg s) = []"
    then have w1': "since k s1 = since k s" using w1 by (simp add: opt_packet_def)
    show "fst (send_notify os hook (enter os Listening s1)) \<Longrightarrow>
         session_inv k (snd (send_notify os hook (enter os Listening s1)))"
      using op k1 w1' progress_notify(2) [OF pr none]
      by (simp add: session_inv_def since_send_notify) (simp add: s1_def send_caps_def)
    show "\<not> fst (send_notify os hook (enter os Listening s1)) \<Longrightarrow>
         session_inv k (session_close (snd (send_notify os hook (enter os Listening s1))))"
      using k1 w1' progress_closed [OF pr]
      by (intro session_inv_closeI) (simp_all add: since_send_notify, simp_all add: s1_def send_caps_def)
  }
qed

lemma after_features:
  assumes inv: "session_inv k s" and ph: "s_phase s = WaitFeaturesAck"
    and ok: "fst (send_notify os hook s)"
  shows "session_inv k (enter os Listening (snd (send_notify os hook s)))"
proof -
  note D = session_inv_openD [OF inv]
  have pr: "progress (s_cfg s) WaitFeaturesAck (s_notify_resent s) (since k s)" using D ph by auto
  show ?thesis
    using D ph ok progress_notify(1) [OF pr]
    by (intro session_inv_enter) (simp_all add: since_send_notify)
qed

lemma step_timeout_ok:
  assumes inv: "session_inv k s" and op: "is_open s" and o': "\<not> st_closed o'"
  shows "stage_ok k (step_timeout os hook o' s)"
proof -
  have inv': "session_inv k (tick_ix s)" using inv by simp
  note failed = stage_ok_fail_closed [OF session_inv_failed_notify [OF inv', of os]]
    stage_ok_fail_closed [OF session_inv_failed_emit [OF inv', of os "host_caps (s_cfg s)" "''host-capabilities''"]]
  show ?thesis
  proof (cases "s_phase s")
    case WaitHandshakeAck
    then have ph: "s_phase (tick_ix s) = WaitHandshakeAck" by simp
    show ?thesis
      using WaitHandshakeAck inv op o' failed(2) after_handshake [OF inv' ph, of os]
      by (auto simp: step_timeout_def Let_def case_prod_unfold send_caps_def stage_ok_def fail_closed_def)
  next
    case WaitFeaturesAck
    then have ph: "s_phase (tick_ix s) = WaitFeaturesAck" by simp
    show ?thesis
      using WaitFeaturesAck inv op o' failed(1) after_features [OF inv' ph, of os]
      by (auto simp: step_timeout_def Let_def case_prod_unfold stage_ok_def fail_closed_def)
  qed (use inv op o' in \<open>simp_all add: step_timeout_def stage_ok_def\<close>)
qed

end

lemma step_battery_sels [simp]:
  "sock_fd (snd (step_battery os o' s)) = sock_fd s"
  "is_open (snd (step_battery os o' s)) = is_open s"
  "w_trace (snd (step_battery os o' s)) = w_trace s"
  "s_cfg (snd (step_battery os o' s)) = s_cfg s"
  "s_phase (snd (step_battery os o' s)) = s_phase s"
  "s_notify_resent (snd (step_battery os o' s)) = s_notify_resent s"
  "s_buf (snd (step_battery os o' s)) = s_buf s"
  "st_closed (fst (step_battery os o' s)) = st_closed o'"
  "st_packet (fst (step_battery os o' s)) = st_packet o'"
  "st_bytes (fst (step_battery os o' s)) = st_bytes o'"
  "st_phase_changed (fst (step_battery os o' s)) = st_phase_changed o'"
  by (auto simp: step_battery_def Let_def case_prod_unfold keep_note_def is_open_def split: option.splits)

lemma since_step_battery [simp]: "since k (snd (step_battery os o' s)) = since k s"
  by (simp add: since_def)

lemma session_inv_step_battery: "session_inv k s \<Longrightarrow> session_inv k (snd (step_battery os o' s))"
  by (simp add: session_inv_def)

lemma keep_note_sels [simp]:
  "st_closed (keep_note t o') = st_closed o'" "st_packet (keep_note t o') = st_packet o'"
  "st_battery (keep_note t o') = st_battery o'" "st_bytes (keep_note t o') = st_bytes o'"
  "st_phase_changed (keep_note t o') = st_phase_changed o'" "st_note (keep_note t o') \<noteq> None"
  by (auto simp: keep_note_def)

context packet_hook
begin

lemma step_resend_ok:
  assumes inv: "session_inv k s" and op: "is_open s" and o': "\<not> st_closed o'"
  shows "stage_ok k (step_resend os hook o' s)"
proof (cases "s_phase s = Listening \<and> \<not> s_notify_resent s")
  case False
  then show ?thesis using inv op o' by (auto simp: step_resend_def stage_ok_def)
next
  case True
  let ?s = "(snd (elapsed_ms os s))\<lparr>s_notify_resent := True\<rparr>"
  have k: "k \<le> length (w_trace s)"
    and pr: "progress (s_cfg s) Listening False (since k s)"
    using session_inv_openD [OF inv] True by auto
  have w: "since k ?s = since k s" by (simp add: since_def)
  have opn: "is_open ?s" using op by (simp add: is_open_def)
  have sent: "fst (send_notify os hook ?s) \<Longrightarrow> session_inv k (snd (send_notify os hook ?s))"
    using k w opn True progress_resend [OF pr] by (simp add: session_inv_def since_send_notify)
  have failed: "\<not> fst (send_notify os hook ?s) \<Longrightarrow> session_inv k (session_close (snd (send_notify os hook ?s)))"
    using k w progress_closed [OF pr] by (intro session_inv_closeI) (simp_all add: since_send_notify)
  have "session_inv k (snd (elapsed_ms os s))" using inv by (simp add: session_inv_def)
  with inv op o' opn sent failed show ?thesis
    by (auto simp: step_resend_def Let_def case_prod_unfold stage_ok_def fail_closed_def)
qed

lemma step_transition_ok:
  assumes inv: "session_inv k s" and op: "is_open s" and o': "\<not> st_closed o'"
  shows "stage_ok k (step_transition os hook o' s)"
proof -
  note failed = stage_ok_fail_closed [OF session_inv_failed_notify [OF inv, of os]]
    stage_ok_fail_closed [OF session_inv_failed_emit [OF inv, of os "host_caps (s_cfg s)" "''host-capabilities''"]]
  show ?thesis
  proof (cases "s_phase s")
    case WaitHandshakeAck
    then show ?thesis
      using inv op o' failed(2) after_handshake [OF inv WaitHandshakeAck, of os]
      by (auto simp: step_transition_def Let_def case_prod_unfold send_caps_def stage_ok_def fail_closed_def)
  next
    case WaitFeaturesAck
    then show ?thesis
      using inv op o' failed(1) after_features [OF inv WaitFeaturesAck, of os]
      by (auto simp: step_transition_def Let_def case_prod_unfold stage_ok_def fail_closed_def)
  qed (use inv op o' in \<open>simp_all add: step_transition_def stage_ok_def\<close>)
qed

lemma session_inv_call_hook: "session_inv k s \<Longrightarrow> session_inv k (call_hook hook d bs what s)"
  by (simp add: session_inv_def since_def)

lemma step_received_ok:
  assumes "session_inv k s" and "is_open s" and "\<not> st_closed o'"
  shows "stage_ok k (step_received os hook o' s)"
  using assms
  by (auto simp: step_received_def Let_def case_prod_unfold
      intro!: step_transition_ok session_inv_step_battery session_inv_call_hook)

lemma read_packet_trace:
  "\<exists>t. w_trace (snd (snd (read_packet os tmo out s))) = w_trace s @ t \<and> written t = []"
  by (auto simp: read_packet_def Let_def split: prod.splits sum.splits)

lemma session_inv_read:
  assumes "session_inv k s"
  shows "session_inv k ((snd (snd (read_packet os tmo out s)))\<lparr>s_buf := b\<rparr>)"
proof -
  obtain t where "w_trace (snd (snd (read_packet os tmo out s))) = w_trace s @ t" "written t = []"
    using read_packet_trace by blast
  then show ?thesis
    using assms by (auto simp: session_inv_def since_def is_open_def)
qed

lemma step_read_ok:
  assumes inv: "session_inv k s" and op: "is_open s" and o': "\<not> st_closed o'"
  shows "stage_ok k (step_read os hook tmo o' s)"
proof -
  define r where "r = read_packet os tmo (s_buf s) s"
  define s1 where "s1 = (snd (snd r))\<lparr>s_buf := fst (snd r)\<rparr>"
  have inv1: "session_inv k s1" using inv by (simp add: s1_def r_def session_inv_read)
  have op1: "is_open s1" using op by (simp add: s1_def r_def is_open_def)
  have "step_read os hook tmo o' s =
    (if fst r < 0 then (keep_note ''channel closed by peer'' (o'\<lparr>st_closed := True\<rparr>), session_close s1)
     else if fst r = 0 then (o', s1) else step_received os hook o' s1)"
    by (simp add: step_read_def r_def s1_def Let_def case_prod_unfold)
  with inv1 op1 o' show ?thesis
    by (auto simp: stage_ok_def session_inv_close step_received_ok [OF inv1 op1 o', unfolded stage_ok_def])
qed

lemma session_step_ok:
  assumes inv: "session_inv k s"
  shows "session_inv k (snd (session_step os hook tmo s))"
    and "st_closed (fst (session_step os hook tmo s)) = (\<not> is_open (snd (session_step os hook tmo s)))"
proof -
  have "stage_ok k (session_step os hook tmo s)"
  proof (cases "is_open s")
    case False
    then show ?thesis using inv by (simp add: session_step_def stage_ok_def)
  next
    case True
    have "\<not> st_closed empty_step" by (simp add: empty_step_def)
    note A = step_timeout_ok [OF inv True this, of os]
    show ?thesis
    proof (cases "st_closed (fst (step_timeout os hook empty_step s))")
      case True
      with A \<open>is_open s\<close> show ?thesis by (simp add: session_step_def Let_def case_prod_unfold)
    next
      case c1: False
      let ?s = "snd (step_timeout os hook empty_step s)" and ?o = "fst (step_timeout os hook empty_step s)"
      have i1: "session_inv k ?s" and p1: "is_open ?s" using A c1 by (auto simp: stage_ok_def)
      note B = step_resend_ok [OF i1 p1 c1, of os]
      then show ?thesis
        using \<open>is_open s\<close> c1 step_read_ok [of k "snd (step_resend os hook ?o ?s)"
            "fst (step_resend os hook ?o ?s)" os tmo]
        by (auto simp: session_step_def Let_def case_prod_unfold stage_ok_def)
    qed
  qed
  then show "session_inv k (snd (session_step os hook tmo s))"
    and "st_closed (fst (session_step os hook tmo s)) = (\<not> is_open (snd (session_step os hook tmo s)))"
    by (auto simp: stage_ok_def)
qed

end

section \<open>Opening a connection\<close>

lemma connect_to_written:
  "\<exists>t. w_trace (snd (connect_to os mac sec s)) = w_trace s @ t \<and> written t = []"
  by (auto simp: connect_to_def Let_def split: prod.splits)

lemma open_reset_sels [simp]:
  "w_trace (open_reset os s) = w_trace s" "sock_fd (open_reset os s) = sock_fd s"
  "is_open (open_reset os s) = is_open s" "s_cfg (open_reset os s) = s_cfg s"
  "s_phase (open_reset os s) = WaitHandshakeAck" "\<not> s_notify_resent (open_reset os s)"
  "\<not> s_battery_seen (open_reset os s)" "s_last_battery (open_reset os s) = s_last_battery s"
  "s_battery_at (open_reset os s) = s_battery_at s" "s_refusals (open_reset os s) = s_refusals s"
  by (simp_all add: open_reset_def now_def Let_def is_open_def)

lemma since_log_sleep:
  "k \<le> length (w_trace s) \<Longrightarrow> since k (log_ev (SysSleep m) s) = since k s"
  by (simp add: since_def)

context packet_hook
begin

lemma open_upfront_ok:
  assumes op: "is_open s" and k: "k \<le> length (w_trace s)" and w: "since k s = hello (s_cfg s)"
    and rs: "\<not> s_notify_resent s" and ok: "ok result"
  shows "session_inv k (snd (open_upfront os hook result s))"
    and "ok (fst (open_upfront os hook result s)) = is_open (snd (open_upfront os hook result s))"
proof -
  define s1 where "s1 = log_ev (SysSleep 200) s"
  define r2 where "r2 = send_caps os hook s1"
  define s3 where "s3 = (if host_caps (s_cfg s) \<noteq> [] then log_ev (SysSleep 200) (snd r2) else snd r2)"
  define r4 where "r4 = send_notify os hook s3"
  have s1: "is_open s1" "k \<le> length (w_trace s1)" "since k s1 = hello (s_cfg s)" "s_cfg s1 = s_cfg s"
    "\<not> s_notify_resent s1"
    using op k w rs by (simp_all add: s1_def since_log_sleep)
  have r2: "is_open (snd r2)" "k \<le> length (w_trace (snd r2))" "s_cfg (snd r2) = s_cfg s"
    "\<not> s_notify_resent (snd r2)"
    using s1 by (simp_all add: r2_def send_caps_def)
  have w2: "since k (snd r2) = hello (s_cfg s) @ (if fst r2 then opt_packet (host_caps (s_cfg s)) else [])"
    using s1 by (simp add: r2_def send_caps_def since_emit)
  have s3: "is_open s3" "k \<le> length (w_trace s3)" "s_cfg s3 = s_cfg s" "\<not> s_notify_resent s3"
    "since k s3 = since k (snd r2)"
    using r2 by (simp_all add: s3_def since_log_sleep)
  have r4: "is_open (snd r4)" "k \<le> length (w_trace (snd r4))" "s_cfg (snd r4) = s_cfg s"
    "\<not> s_notify_resent (snd r4)"
    using s3 by (simp_all add: r4_def)
  have w4: "since k (snd r4) = since k s3 @ (if fst r4 then opt_packet (notify_request (s_cfg s)) else [])"
    using s3 by (simp add: r4_def since_send_notify)
  have eq: "open_upfront os hook result s =
    (if \<not> fst r2 then (result\<lparr>ok := False\<rparr>, session_close (snd r2))
     else if \<not> fst r4 then (result\<lparr>ok := False\<rparr>, session_close (snd r4))
     else (result, enter os Listening (snd r4)))"
    using r2(3) by (simp add: open_upfront_def Let_def case_prod_unfold s1_def r2_def s3_def r4_def)
  show "session_inv k (snd (open_upfront os hook result s))"
    using r2 w2 s3 r4 w4 unfolding eq
    by (auto simp: session_inv_def progress_def script_def)
  show "ok (fst (open_upfront os hook result s)) = is_open (snd (open_upfront os hook result s))"
    using ok r4 unfolding eq by auto
qed

lemma session_open_ok:
  assumes cl: "\<not> is_open s" "s_phase s = Closed"
  shows "session_inv (length (w_trace s)) (snd (session_open os hook mac s))"
    and "ok (fst (session_open os hook mac s)) = is_open (snd (session_open os hook mac s))"
proof -
  let ?k = "length (w_trace s)"
  define c where "c = connect_to os mac (require_security (s_cfg s)) s"
  define s2 where "s2 = open_reset os (snd c)"
  define r where "r = (if send_handshake (s_cfg s) then emit os hook kHandshake ''handshake'' s2 else (True, s2))"
  have cop: "ok (fst c) = is_open (snd c)" by (simp add: c_def connect_to_ok_open)
  obtain t where t: "w_trace (snd c) = w_trace s @ t" "written t = []"
    using connect_to_written c_def by metis
  have cfg: "s_cfg (snd c) = s_cfg s" "s_phase (snd c) = Closed" using cl by (simp_all add: c_def)
  have s2: "is_open s2 = is_open (snd c)" "?k \<le> length (w_trace s2)" "s_cfg s2 = s_cfg s"
    "since ?k s2 = []" "\<not> s_notify_resent s2" "s_phase s2 = WaitHandshakeAck"
    using t cfg by (simp_all add: s2_def since_def)
  have r: "is_open (snd r) = is_open (snd c)" "?k \<le> length (w_trace (snd r))" "s_cfg (snd r) = s_cfg s"
    "\<not> s_notify_resent (snd r)" "s_phase (snd r) = WaitHandshakeAck"
    using s2 by (simp_all add: r_def)
  have wr: "since ?k (snd r) = (if fst r then hello (s_cfg s) else [])"
    using s2 since_emit [of ?k s2 os kHandshake "''handshake''"]
    by (simp add: r_def hello_def opt_packet_def kHandshake_def)
  have eq: "session_open os hook mac s =
    (if \<not> ok (fst c) then c
     else if \<not> fst r then ((fst c)\<lparr>ok := False,
        diagnosis := ''channel opened but the handshake could not be written''\<rparr>, session_close (snd r))
     else if \<not> ack_driven (s_cfg s) \<or> \<not> send_handshake (s_cfg s) then open_upfront os hook (fst c) (snd r)
     else (fst c, snd r))"
    using cfg r(3) s2(3)
    by (simp add: session_open_def Let_def case_prod_unfold c_def s2_def r_def)
  note up = open_upfront_ok [of "snd r" ?k "fst c" os]
  have "session_inv ?k (snd c)" if "\<not> is_open (snd c)"
    using that t cfg by (simp add: session_inv_def progress_def since_def)
  moreover have "session_inv ?k (session_close (snd r))" if "\<not> fst r"
    using that r wr by (intro session_inv_closeI) (simp_all add: progress_def)
  moreover have "session_inv ?k (snd r)" if "is_open (snd c)" and "fst r"
    using that r wr by (simp add: session_inv_def progress_def)
  ultimately show "session_inv ?k (snd (session_open os hook mac s))"
    unfolding eq using cop r wr up by auto
  show "ok (fst (session_open os hook mac s)) = is_open (snd (session_open os hook mac s))"
    unfolding eq using cop r wr up by auto
qed

end

section \<open>The sequence only moves forward\<close>

fun rank :: "phase \<Rightarrow> nat" where
  "rank WaitHandshakeAck = 0"
| "rank WaitFeaturesAck = 1"
| "rank Listening = 2"
| "rank Closed = 3"

text \<open>So the phases are ordered as a connection goes through them.\<close>

instantiation phase :: linorder
begin

definition less_eq_phase :: "phase \<Rightarrow> phase \<Rightarrow> bool" where
  "less_eq_phase p q \<longleftrightarrow> rank p \<le> rank q"

definition less_phase :: "phase \<Rightarrow> phase \<Rightarrow> bool" where
  "less_phase p q \<longleftrightarrow> rank p < rank q"

instance
proof
  fix p q r :: phase
  show "p < q \<longleftrightarrow> p \<le> q \<and> \<not> q \<le> p" by (auto simp: less_eq_phase_def less_phase_def)
  show "p \<le> p" by (simp add: less_eq_phase_def)
  show "p \<le> q \<Longrightarrow> q \<le> r \<Longrightarrow> p \<le> r" by (simp add: less_eq_phase_def)
  show "p \<le> q \<Longrightarrow> q \<le> p \<Longrightarrow> p = q" by (cases p; cases q; simp add: less_eq_phase_def)
  show "p \<le> q \<or> q \<le> p" by (auto simp: less_eq_phase_def)
qed

end

text \<open>The current phase has waited longer than the acknowledgement timeout allows.\<close>

definition overdue :: "os \<Rightarrow> 'z session_scheme \<Rightarrow> bool" where
  "overdue os s \<longleftrightarrow> s_phase s \<in> {WaitHandshakeAck, WaitFeaturesAck} \<and>
     ack_timeout_ms (s_cfg s) < ms_between (s_phase_at s) (os_now os (w_ix s))"

context packet_hook
begin

lemma step_timeout_rank:
  "rank (s_phase s) \<le> rank (s_phase (snd (step_timeout os hook o' s)))"
  "overdue os s \<Longrightarrow> rank (s_phase s) < rank (s_phase (snd (step_timeout os hook o' s)))"
  by (cases "s_phase s";
      auto simp: step_timeout_def overdue_def Let_def case_prod_unfold fail_closed_def send_caps_def)+

lemma step_resend_rank: "rank (s_phase s) \<le> rank (s_phase (snd (step_resend os hook o' s)))"
  by (auto simp: step_resend_def Let_def case_prod_unfold fail_closed_def)

lemma step_transition_rank: "rank (s_phase s) \<le> rank (s_phase (snd (step_transition os hook o' s)))"
  by (cases "s_phase s")
    (auto simp: step_transition_def Let_def case_prod_unfold fail_closed_def send_caps_def)

lemma step_read_rank: "rank (s_phase s) \<le> rank (s_phase (snd (step_read os hook tmo o' s)))"
proof -
  have "rank p \<le> 3" for p by (cases p) simp_all
  then show ?thesis
    by (auto simp: step_read_def step_received_def Let_def case_prod_unfold
        intro!: order_trans [OF _ step_transition_rank])
qed

lemma session_step_rank:
  "rank (s_phase s) \<le> rank (s_phase (snd (session_step os hook tmo s)))"
  "is_open s \<Longrightarrow> overdue os s \<Longrightarrow> rank (s_phase s) < rank (s_phase (snd (session_step os hook tmo s)))"
  using step_timeout_rank(1) [of s os empty_step] step_timeout_rank(2) [of os s empty_step]
    step_resend_rank [of "snd (step_timeout os hook empty_step s)" os "fst (step_timeout os hook empty_step s)"]
    step_read_rank [of "snd (step_resend os hook (fst (step_timeout os hook empty_step s))
        (snd (step_timeout os hook empty_step s)))" os tmo
        "fst (step_resend os hook (fst (step_timeout os hook empty_step s))
        (snd (step_timeout os hook empty_step s)))"]
  by (auto simp: session_step_def Let_def case_prod_unfold)

end

section \<open>The battery cache\<close>

text \<open>
  What a consumer can see of a session: phase, socket, cached report, refusals. \<open>cache_kept\<close>
  says a section of a step left the cache alone.
\<close>

definition cache_of :: "'z session_scheme \<Rightarrow> battery_report option \<times> int \<times> int" where
  "cache_of s = (s_last_battery s, s_battery_at s, s_refusals s)"

lemma cache_close [simp]: "cache_of (session_close s) = cache_of s"
  by (simp add: cache_of_def)

lemma cache_enter [simp]: "cache_of (enter os p s) = cache_of s"
  by (simp add: cache_of_def)

lemma cache_tick [simp]:
  "cache_of (tick_ix t) = cache_of t" "cache_of (log_ev e t) = cache_of t"
  "cache_of (s\<lparr>s_notify_resent := b\<rparr>) = cache_of s" "cache_of (s\<lparr>s_buf := bs\<rparr>) = cache_of s"
  "cache_of (snd (elapsed_ms os s)) = cache_of s" "cache_of (open_reset os s) = cache_of s"
  "cache_of (snd (connect_to os mac sec s)) = cache_of s"
  "cache_of (snd (snd (read_packet os tmo out s))) = cache_of s"
  by (simp_all add: cache_of_def)

definition battery_cached :: "step_out \<Rightarrow> 'z session_scheme \<Rightarrow> 'z session_scheme \<Rightarrow> bool" where
  "battery_cached o' s s' \<longleftrightarrow>
     (if st_packet o' \<and> opcode_of (st_bytes o') = kOpBattery then
        (case parse_battery (st_bytes o') of
           Some r \<Rightarrow> st_battery o' \<and> s_last_battery s' = Some r \<and> s_refusals s' = s_refusals s
         | None \<Rightarrow> \<not> st_battery o' \<and> s_last_battery s' = s_last_battery s
                   \<and> s_battery_at s' = s_battery_at s \<and> s_refusals s' = s_refusals s + 1)
      else \<not> st_battery o' \<and> cache_of s' = cache_of s)"

lemma fail_closed_cache [simp]:
  "st_packet (fst (fail_closed o' s)) = st_packet o'" "st_bytes (fst (fail_closed o' s)) = st_bytes o'"
  "st_battery (fst (fail_closed o' s)) = st_battery o'"
  by (simp_all add: fail_closed_def)

context packet_hook
begin

lemma cache_emit [simp]:
  "cache_of (snd (emit os hook bs what s)) = cache_of s"
  "cache_of (snd (send_notify os hook s)) = cache_of s"
  "cache_of (snd (send_caps os hook s)) = cache_of s"
  "cache_of (call_hook hook d bs name s) = cache_of s"
  by (simp_all add: cache_of_def send_caps_def)

lemma step_timeout_cache [simp]:
  "cache_of (snd (step_timeout os hook o' s)) = cache_of s"
  "st_packet (fst (step_timeout os hook o' s)) = st_packet o'"
  "st_battery (fst (step_timeout os hook o' s)) = st_battery o'"
  by (simp_all add: step_timeout_def Let_def case_prod_unfold)

lemma step_resend_cache [simp]:
  "cache_of (snd (step_resend os hook o' s)) = cache_of s"
  "st_packet (fst (step_resend os hook o' s)) = st_packet o'"
  "st_battery (fst (step_resend os hook o' s)) = st_battery o'"
  by (simp_all add: step_resend_def Let_def case_prod_unfold)

lemma step_transition_cache [simp]:
  "cache_of (snd (step_transition os hook o' s)) = cache_of s"
  "st_packet (fst (step_transition os hook o' s)) = st_packet o'"
  "st_battery (fst (step_transition os hook o' s)) = st_battery o'"
  "st_bytes (fst (step_transition os hook o' s)) = st_bytes o'"
  by (simp_all add: step_transition_def Let_def case_prod_unfold)

lemma step_battery_cached:
  "st_packet o' \<Longrightarrow> \<not> st_battery o' \<Longrightarrow> battery_cached (fst (step_battery os o' s)) s (snd (step_battery os o' s))"
  by (auto simp: battery_cached_def step_battery_def Let_def case_prod_unfold cache_of_def split: option.splits)

lemma battery_cached_cong:
  assumes "st_packet oa = st_packet ob" "st_battery oa = st_battery ob" "st_bytes oa = st_bytes ob"
    and "cache_of sa = cache_of sb" "cache_of ta = cache_of tb"
  shows "battery_cached oa sa ta = battery_cached ob sb tb"
  using assms by (simp add: battery_cached_def cache_of_def split: option.splits)

lemma step_received_cached:
  "\<not> st_battery o' \<Longrightarrow> battery_cached (fst (step_received os hook o' s)) s (snd (step_received os hook o' s))"
  using step_battery_cached [of "o'\<lparr>st_packet := True, st_bytes := s_buf s\<rparr>" os
      "call_hook hook Received (s_buf s) None s"]
  by (subst battery_cached_cong) (auto simp: step_received_def Let_def case_prod_unfold)

lemma step_read_cached:
  assumes "\<not> st_battery o'" and "\<not> st_packet o'"
  shows "battery_cached (fst (step_read os hook tmo o' s)) s (snd (step_read os hook tmo o' s))"
proof -
  let ?s = "(snd (snd (read_packet os tmo (s_buf s) s)))\<lparr>s_buf := fst (snd (read_packet os tmo (s_buf s) s))\<rparr>"
  have "battery_cached (fst (step_received os hook o' ?s)) s (snd (step_received os hook o' ?s))"
    using step_received_cached [OF assms(1), of os ?s]
    by (subst battery_cached_cong [where sb = ?s]) auto
  with assms show ?thesis
    by (auto simp: step_read_def Let_def case_prod_unfold battery_cached_def)
qed

lemma session_step_cached:
  "battery_cached (fst (session_step os hook tmo s)) s (snd (session_step os hook tmo s))"
proof -
  let ?r1 = "step_timeout os hook empty_step s"
  let ?r2 = "step_resend os hook (fst ?r1) (snd ?r1)"
  have e: "\<not> st_battery empty_step" "\<not> st_packet empty_step" by (simp_all add: empty_step_def)
  have "battery_cached (fst (step_read os hook tmo (fst ?r2) (snd ?r2))) s
      (snd (step_read os hook tmo (fst ?r2) (snd ?r2)))"
    using step_read_cached [of "fst ?r2" os tmo "snd ?r2"] e
    by (subst battery_cached_cong [where sb = "snd ?r2"]) auto
  with e show ?thesis
    by (auto simp: session_step_def Let_def case_prod_unfold) (simp_all add: battery_cached_def)
qed

lemma session_open_cache [simp]: "cache_of (snd (session_open os hook mac s)) = cache_of s"
  by (simp add: session_open_def open_upfront_def Let_def case_prod_unfold)

end

text \<open>Nothing enters the cache but what the parser accepted.\<close>

definition cache_parsed :: "'z session_scheme \<Rightarrow> bool" where
  "cache_parsed s \<longleftrightarrow> (\<forall>r. s_last_battery s = Some r \<longrightarrow> (\<exists>p. parse_battery p = Some r))"

lemma cache_parsed_cong: "cache_of s = cache_of t \<Longrightarrow> cache_parsed s = cache_parsed t"
  by (simp add: cache_parsed_def cache_of_def)

lemma cache_parsed_cached: "battery_cached o' s s' \<Longrightarrow> cache_parsed s \<Longrightarrow> cache_parsed s'"
  by (auto simp: battery_cached_def cache_parsed_def cache_of_def split: if_splits option.splits)

lemma cache_parsed_new: "cache_parsed (new_session c)"
  by (simp add: cache_parsed_def new_session_def)

section \<open>What an idle step leaves alone\<close>

definition phase_tracked :: "step_out \<Rightarrow> 'z session_scheme \<Rightarrow> step_out \<times> 'z session_scheme \<Rightarrow> bool" where
  "phase_tracked o' s r \<longleftrightarrow>
     (st_phase_changed o' \<longrightarrow> st_phase_changed (fst r)) \<and>
     (\<not> st_closed (fst r) \<longrightarrow>
        is_open (snd r) = is_open s \<and>
        (\<not> st_phase_changed (fst r) \<longrightarrow> s_phase (snd r) = s_phase s))"

lemma phase_tracked_trans:
  "phase_tracked o' s r \<Longrightarrow> phase_tracked (fst r) (snd r) r' \<Longrightarrow> \<not> st_closed (fst r) \<Longrightarrow> phase_tracked o' s r'"
  by (auto simp: phase_tracked_def)

lemma fail_closed_tracked: "phase_tracked o' s (fail_closed o' s')"
  by (simp add: phase_tracked_def fail_closed_def)

context packet_hook
begin

lemma step_timeout_tracked: "phase_tracked o' s (step_timeout os hook o' s)"
  by (cases "s_phase s")
    (auto simp: phase_tracked_def step_timeout_def Let_def case_prod_unfold fail_closed_def send_caps_def)

lemma step_resend_tracked: "phase_tracked o' s (step_resend os hook o' s)"
  by (auto simp: phase_tracked_def step_resend_def Let_def case_prod_unfold fail_closed_def is_open_def)

lemma step_transition_tracked: "phase_tracked o' s (step_transition os hook o' s)"
  by (auto simp: phase_tracked_def step_transition_def Let_def case_prod_unfold fail_closed_def send_caps_def)

lemma step_received_tracked: "phase_tracked o' s (step_received os hook o' s)"
  using step_transition_tracked [of
      "fst (step_battery os (o'\<lparr>st_packet := True, st_bytes := s_buf s\<rparr>) (call_hook hook Received (s_buf s) None s))"
      "snd (step_battery os (o'\<lparr>st_packet := True, st_bytes := s_buf s\<rparr>) (call_hook hook Received (s_buf s) None s))"
      os]
  by (auto simp: phase_tracked_def step_received_def Let_def case_prod_unfold)

lemma step_read_tracked: "phase_tracked o' s (step_read os hook tmo o' s)"
  using step_received_tracked [of o' "(snd (snd (read_packet os tmo (s_buf s) s)))\<lparr>s_buf := fst (snd (read_packet os tmo (s_buf s) s))\<rparr>" os]
  by (auto simp: phase_tracked_def step_read_def Let_def case_prod_unfold is_open_def)

lemma session_step_tracked: "phase_tracked empty_step s (session_step os hook tmo s)"
proof -
  let ?r1 = "step_timeout os hook empty_step s"
  let ?r2 = "step_resend os hook (fst ?r1) (snd ?r1)"
  have r1: "phase_tracked empty_step s ?r1" by (rule step_timeout_tracked)
  have r2: "phase_tracked (fst ?r1) (snd ?r1) ?r2" by (rule step_resend_tracked)
  have r3: "phase_tracked (fst ?r2) (snd ?r2) (step_read os hook tmo (fst ?r2) (snd ?r2))"
    by (rule step_read_tracked)
  have "phase_tracked empty_step s (empty_step\<lparr>st_closed := True\<rparr>, s)"
    by (simp add: phase_tracked_def)
  then show ?thesis
    using r1 phase_tracked_trans [OF r1 r2] phase_tracked_trans [OF phase_tracked_trans [OF r1 r2] r3]
    by (auto simp: session_step_def Let_def case_prod_unfold)
qed

lemma step_idle_keeps:
  assumes "step_idle (fst (session_step os hook tmo s))"
  shows "is_open (snd (session_step os hook tmo s)) = is_open s"
    and "s_phase (snd (session_step os hook tmo s)) = s_phase s"
    and "cache_of (snd (session_step os hook tmo s)) = cache_of s"
  using assms session_step_tracked [of s os tmo] session_step_cached [of os tmo s]
  by (auto simp: step_idle_def phase_tracked_def battery_cached_def)

end

section \<open>Whole runs\<close>

text \<open>
  What a consumer does to a session after opening it: steps with any timeouts, and a close.
  \<open>session_run\<close> folds a list of them; \<open>open_run\<close> opens first.
\<close>

datatype session_op = DoStep int | DoClose

fun session_do :: "os \<Rightarrow> 'z hook \<Rightarrow> session_op \<Rightarrow> 'z session_scheme \<Rightarrow> 'z session_scheme" where
  "session_do os hook (DoStep tmo) s = snd (session_step os hook tmo s)"
| "session_do os hook DoClose s = session_close s"

definition open_run :: "os \<Rightarrow> 'z hook \<Rightarrow> string \<Rightarrow> session_op list \<Rightarrow> 'z session_scheme \<Rightarrow> 'z session_scheme" where
  "open_run os hook mac ops s = fold (session_do os hook) ops (snd (session_open os hook mac s))"

context packet_hook
begin

lemma session_do_inv: "session_inv k s \<Longrightarrow> session_inv k (session_do os hook e s)"
  by (cases e) (simp_all add: session_step_ok session_inv_close)

end

sublocale packet_hook \<subseteq> run: event_handler "session_do os hook" "session_inv k" for os k
  by unfold_locales (rule session_do_inv)

context packet_hook
begin

lemma open_run_inv:
  "\<not> is_open s \<Longrightarrow> s_phase s = Closed \<Longrightarrow> session_inv (length (w_trace s)) (open_run os hook mac ops s)"
  unfolding open_run_def by (intro run.fold_inv session_open_ok)

lemma cfg_session_do [simp]: "s_cfg (session_do os hook e s) = s_cfg s"
proof (cases e)
  case (DoStep tmo)
  have t: "s_cfg (snd (step_timeout os hook o' s)) = s_cfg s" for o' s
    by (simp add: step_timeout_def Let_def case_prod_unfold send_caps_def)
  have r: "s_cfg (snd (step_resend os hook o' s)) = s_cfg s" for o' s
    by (simp add: step_resend_def Let_def case_prod_unfold)
  have x: "s_cfg (snd (step_transition os hook o' s)) = s_cfg s" for o' s
    by (simp add: step_transition_def Let_def case_prod_unfold send_caps_def)
  have d: "s_cfg (snd (step_read os hook tmo o' s)) = s_cfg s" for o' s
    by (simp add: step_read_def step_received_def Let_def case_prod_unfold x)
  show ?thesis
    using DoStep by (simp add: session_step_def Let_def case_prod_unfold t r d)
qed simp

lemma cfg_session_open [simp]: "s_cfg (snd (session_open os hook mac s)) = s_cfg s"
  by (simp add: session_open_def open_upfront_def Let_def case_prod_unfold send_caps_def)

lemma cfg_open_run [simp]: "s_cfg (open_run os hook mac ops s) = s_cfg s"
proof -
  have "s_cfg (fold (session_do os hook) ops s') = s_cfg s'" for s'
    by (induction ops arbitrary: s') simp_all
  then show ?thesis by (simp add: open_run_def)
qed

lemma open_run_script:
  assumes "\<not> is_open s" "s_phase s = Closed"
  shows "prefix (since (length (w_trace s)) (open_run os hook mac ops s)) (script (s_cfg s))"
  using open_run_inv [OF assms, of os mac ops] progress_closed
  by (fastforce simp: session_inv_def progress_def)

end

interpretation no_hook: packet_hook "None :: 'z hook"
  by unfold_locales simp

section \<open>Properties\<close>

text \<open>
  A concrete kernel for the examples: every call succeeds, one millisecond passes between
  calls, and the pods answer with a handshake acknowledgement, a features acknowledgement and
  then a battery packet.
\<close>

definition sample_os :: os where
  "sample_os = \<lparr>os_str2ba = \<lambda>mac. 0, os_route = \<lambda>i. (0, 0), os_socket = \<lambda>i. (7, 0),
     os_setsockopt = \<lambda>i. (0, 0), os_connect = \<lambda>i. (0, 0),
     os_write = \<lambda>i. (if i = 6 then 16 else if i = 10 then 14 else 11, 0),
     os_poll = \<lambda>i. (1, 0, 1),
     os_read = \<lambda>i. Inr (if i = 9 then [0x01, 0x00, 0x04, 0x00]
                       else if i = 14 then [0x04, 0x00, 0x04, 0x00, 0x2B, 0x00] else sample_packet),
     os_now = \<lambda>i. int i * 1000000\<rparr>"

definition sample_run :: session where
  "sample_run = open_run sample_os None ''AA:BB:CC:DD:EE:FF'' [DoStep 0, DoStep 0, DoStep 0] (new_session config_defaults)"

lemma new_session_sels: "s_cfg (new_session c) = c" "w_trace (new_session c) = []"
  by (simp_all add: new_session_def)

lemma sample_config: "host_caps config_defaults = kHostCapsD7" "notify_request config_defaults = kRequestNotify5"
  by (simp_all add: config_defaults_def)

lemma sample_run_values:
  "s_phase sample_run = Listening \<and> is_open sample_run \<and> s_last_battery sample_run = Some sample_report
   \<and> since 0 sample_run = [kHandshake, kHostCapsD7, kRequestNotify5]"
  by code_simp

text \<open>
  C1: From opening a closed session, through any steps, answers of the kernel and closes, what
  has gone out on the connection is a beginning of the one script (handshake if configured,
  capabilities if any, notification request, and that request once more), and the phase says
  exactly how far it is: nothing is sent out of order, twice, or skipped. The phase is closed
  exactly when the socket is.
\<close>

theorem session_follows_script:
  assumes "packet_hook hook" and "\<not> is_open s" and "s_phase s = Closed"
  shows "let s' = open_run os hook mac ops s; w = since (length (w_trace s)) s'; c = s_cfg s in
    prefix w (script c) \<and> (s_phase s' = Closed \<longleftrightarrow> \<not> is_open s') \<and>
    (case s_phase s' of
       WaitHandshakeAck \<Rightarrow> w = hello c
     | WaitFeaturesAck \<Rightarrow> w = hello c @ opt_packet (host_caps c)
     | Listening \<Rightarrow> w = hello c @ opt_packet (host_caps c) @ opt_packet (notify_request c)
                       @ (if s_notify_resent s' then opt_packet (notify_request c) else [])
     | Closed \<Rightarrow> True)"
  using packet_hook.open_run_inv [OF assms, of os mac ops] packet_hook.open_run_script [OF assms, of os mac ops]
    packet_hook.cfg_open_run [OF assms(1), of os mac ops s]
  by (auto simp: session_inv_def progress_def Let_def split: phase.splits)

theorem session_follows_script_witness:
  "since 0 sample_run = hello config_defaults @ opt_packet kHostCapsD7 @ opt_packet kRequestNotify5"
proof -
  have "\<not> is_open (new_session config_defaults)" "s_phase (new_session config_defaults) = Closed"
    by (simp_all add: new_session_def is_open_def)
  from session_follows_script [OF no_hook.packet_hook_axioms this, where os = sample_os
      and mac = "''AA:BB:CC:DD:EE:FF''" and ops = "[DoStep 0, DoStep 0, DoStep 0]", folded sample_run_def]
  have "since 0 sample_run = hello config_defaults @ opt_packet kHostCapsD7 @ opt_packet kRequestNotify5
      @ (if s_notify_resent sample_run then opt_packet kRequestNotify5 else [])"
    using sample_run_values by (simp add: Let_def new_session_sels sample_config)
  moreover have "\<not> s_notify_resent sample_run" by code_simp
  ultimately show ?thesis by simp
qed

text \<open>
  C19: The phases of a connection only advance, in the order handshake, features, listening,
  closed, and no acknowledgement is waited for beyond its timeout: a step taken after the
  timeout has passed leaves the phase behind, whatever the pods and the kernel do.
\<close>

theorem phase_advances:
  assumes "packet_hook hook"
  shows "if is_open s \<and> overdue os s then s_phase s < s_phase (snd (session_step os hook tmo s))
         else s_phase s \<le> s_phase (snd (session_step os hook tmo s))"
  using packet_hook.session_step_rank [OF assms] by (auto simp: less_phase_def less_eq_phase_def)

definition waiting_session :: session where
  "waiting_session = (new_session config_defaults)\<lparr>sock_fd := 7, s_phase := WaitHandshakeAck, w_ix := 3000\<rparr>"

theorem phase_advances_witness:
  "WaitHandshakeAck < s_phase (snd (session_step sample_os None 0 waiting_session))"
proof -
  have "is_open waiting_session \<and> overdue sample_os waiting_session" by code_simp
  then show ?thesis
    using phase_advances [OF no_hook.packet_hook_axioms, where s = waiting_session and os = sample_os and tmo = 0]
    by (simp add: waiting_session_def)
qed

text \<open>
  C20: The cache holds what the parser accepted and nothing else: a step replaces it exactly
  when it received a battery packet that parses, counts a refusal exactly when one does not,
  and leaves report, time and count alone otherwise.
\<close>

theorem step_caches_parsed:
  assumes "packet_hook hook"
  shows "case session_step os hook tmo s of (o', s') \<Rightarrow>
    if st_packet o' \<and> opcode_of (st_bytes o') = kOpBattery then
      (case parse_battery (st_bytes o') of
         Some r \<Rightarrow> st_battery o' \<and> s_last_battery s' = Some r \<and> s_refusals s' = s_refusals s
       | None \<Rightarrow> \<not> st_battery o' \<and> s_last_battery s' = s_last_battery s
                 \<and> s_battery_at s' = s_battery_at s \<and> s_refusals s' = s_refusals s + 1)
    else \<not> st_battery o' \<and> cache_of s' = cache_of s"
  using packet_hook.session_step_cached [OF assms, of os tmo s]
  by (auto simp: battery_cached_def split: prod.split option.splits)

theorem step_caches_parsed_witness:
  "s_last_battery (snd (session_step sample_os None 0 (waiting_session\<lparr>w_ix := 30\<rparr>))) = Some sample_report"
proof -
  have v: "st_packet (fst (session_step sample_os None 0 (waiting_session\<lparr>w_ix := 30\<rparr>)))"
    "st_bytes (fst (session_step sample_os None 0 (waiting_session\<lparr>w_ix := 30\<rparr>))) = sample_packet"
    "opcode_of sample_packet = kOpBattery"
    by code_simp+
  then show ?thesis
    using step_caches_parsed [OF no_hook.packet_hook_axioms, where os = sample_os and tmo = 0
      and s = "waiting_session\<lparr>w_ix := 30\<rparr>"]
    by (simp add: parse_sample case_prod_unfold)
qed

text \<open>
  The reading outlives the connection: closing the session and opening it again, whether
  or not that succeeds, keep the cached report, its time and the count of refusals.
\<close>

theorem reading_survives_reconnect:
  assumes "packet_hook hook"
  shows "cache_of (snd (session_open os hook mac (session_close s))) = cache_of s"
  by (simp add: packet_hook.session_open_cache [OF assms])

theorem reading_survives_reconnect_witness:
  "s_last_battery (snd (session_open sample_os None ''AA:BB:CC:DD:EE:FF'' (session_close sample_run)))
     = Some sample_report"
  using reading_survives_reconnect [OF no_hook.packet_hook_axioms, where os = sample_os
      and mac = "''AA:BB:CC:DD:EE:FF''" and s = sample_run]
    sample_run_values by (simp add: cache_of_def)

text \<open>
  An idle step is invisible: no snapshot field can change, so a consumer that looks only
  when a step is not idle misses nothing. A step says \<open>closed\<close> exactly when the socket is not
  open afterwards.
\<close>

theorem idle_step_invisible:
  assumes "packet_hook hook" and "session_inv k s" and "session_step os hook tmo s = (o', s')"
  shows "(st_closed o' \<longleftrightarrow> \<not> is_open s') \<and>
    (if step_idle o' then is_open s' = is_open s \<and> s_phase s' = s_phase s \<and> cache_of s' = cache_of s
     else st_packet o' \<or> st_closed o' \<or> st_phase_changed o' \<or> st_note o' \<noteq> None)"
  using packet_hook.session_step_ok(2) [OF assms(1,2), of os tmo] packet_hook.step_idle_keeps [OF assms(1), of os tmo s] assms(3)
  by (auto simp: step_idle_def)

definition silent_os :: os where
  "silent_os = sample_os\<lparr>os_poll := \<lambda>i. (0, 0, 0), os_now := \<lambda>i. 0\<rparr>"

definition quiet_session :: session where
  "quiet_session = waiting_session\<lparr>s_cfg := config_defaults\<lparr>send_handshake := False\<rparr>\<rparr>"

theorem idle_step_invisible_witness:
  "step_idle (fst (session_step silent_os None 200 quiet_session))
   \<and> s_phase (snd (session_step silent_os None 200 quiet_session)) = WaitHandshakeAck"
proof -
  have inv: "session_inv 0 quiet_session" by code_simp
  have idle: "step_idle (fst (session_step silent_os None 200 quiet_session))" by code_simp
  then have "s_phase (snd (session_step silent_os None 200 quiet_session)) = s_phase quiet_session"
    using idle_step_invisible [OF no_hook.packet_hook_axioms inv prod.collapse [symmetric],
        where os = silent_os and tmo = 200] by simp
  with idle show ?thesis by (simp add: quiet_session_def waiting_session_def)
qed


text \<open>
  What a failed reopening leaves behind: on a session that is open, the socket is closed but
  the phase stays what it was.
\<close>

lemma reopen_failure_keeps_phase:
  "os_str2ba os mac < 0 \<Longrightarrow>
   s_phase (snd (session_open os hook mac s)) = s_phase s \<and> \<not> is_open (snd (session_open os hook mac s))"
  by (simp add: session_open_def connect_to_def Let_def fail_def)

end
