(* ===== verification/Std_Lib.thy ===== *)
theory Std_Lib
  imports Airprobe_Prelude "HOL-Library.Char_ord" "HOL-Library.List_Lexorder"
begin

text \<open>
  The parts of the C and C++ standard libraries both programs use: \<open>std::map\<close> with string keys
  as a key-sorted association list, \<open>atoi\<close>, and text files written line by line. The lemmas say
  that the sorted list is a map with extensional equality, that printing a number and reading
  it back gives it again, and that a file of lines splits into its lines.
\<close>

section \<open>Maps with string keys\<close>

type_synonym 'v smap = "(string \<times> 'v) list"

fun smap_insert :: "string \<Rightarrow> 'v \<Rightarrow> 'v smap \<Rightarrow> 'v smap" where
  "smap_insert k v [] = [(k, v)]"
| "smap_insert k v ((k', v') # m) =
     (if k < k' then (k, v) # (k', v') # m
      else if k = k' then (k, v) # m
      else (k', v') # smap_insert k v m)"

definition smap_ok :: "'v smap \<Rightarrow> bool" where
  "smap_ok m \<longleftrightarrow> sorted_wrt (<) (map fst m)"

lemma map_of_smap_insert [simp]: "map_of (smap_insert k v m) = (map_of m)(k \<mapsto> v)"
  by (induction m) (auto simp: fun_eq_iff)

lemma set_smap_insert: "fst ` set (smap_insert k v m) = insert k (fst ` set m)"
  by (simp add: dom_map_of_conv_image_fst [symmetric] del: fun_upd_apply)

lemma smap_ok_insert: "smap_ok m \<Longrightarrow> smap_ok (smap_insert k v m)"
proof (induction m)
  case Nil
  then show ?case by (simp add: smap_ok_def)
next
  case (Cons a m)
  obtain k' v' where a: "a = (k', v')" by (cases a)
  have keys: "\<forall>x \<in> fst ` set m. k' < x" using Cons.prems by (auto simp: smap_ok_def a)
  have "smap_ok m" using Cons.prems by (simp add: smap_ok_def)
  then have IH: "smap_ok (smap_insert k v m)" by (rule Cons.IH)
  consider "k < k'" | "k = k'" | "k' < k" by (metis linorder_neqE)
  then show ?case
  proof cases
    case 1
    with keys Cons.prems show ?thesis by (auto simp: smap_ok_def a)
  next
    case 2
    with Cons.prems show ?thesis by (auto simp: smap_ok_def a)
  next
    case 3
    then have "\<forall>x \<in> fst ` set (smap_insert k v m). k' < x" using keys by (auto simp: set_smap_insert)
    with 3 IH show ?thesis by (auto simp: smap_ok_def a)
  qed
qed

lemma smap_ok_Nil [simp]: "smap_ok []"
  by (simp add: smap_ok_def)

lemma smap_ok_distinct: "smap_ok m \<Longrightarrow> distinct (map fst m)"
  unfolding smap_ok_def by (simp add: strict_sorted_iff)

lemma smap_eqI:
  assumes "smap_ok m" "smap_ok n" "map_of m = map_of n"
  shows "m = n"
proof -
  have "set (map fst m) = set (map fst n)"
    using assms(3) by (metis dom_map_of_conv_image_fst list.set_map)
  then have keys: "map fst m = map fst n"
    using assms(1,2) unfolding smap_ok_def by (simp add: strict_sorted_equal)
  have "map snd m = map snd n"
  proof (rule nth_equalityI)
    show "length (map snd m) = length (map snd n)" using keys by (metis length_map)
    fix i assume i: "i < length (map snd m)"
    then have j: "i < length n" using keys by (metis length_map)
    have "fst (m ! i) = fst (n ! i)" using i j keys by (metis length_map nth_map)
    moreover have "map_of m (fst (m ! i)) = Some (snd (m ! i))"
      using i smap_ok_distinct [OF assms(1)] by (simp add: map_of_eq_Some_iff)
    moreover have "map_of n (fst (n ! i)) = Some (snd (n ! i))"
      using j smap_ok_distinct [OF assms(2)] by (simp add: map_of_eq_Some_iff)
    ultimately show "map snd m ! i = map snd n ! i" using i j assms(3) by simp
  qed
  with keys show ?thesis by (metis zip_map_fst_snd)
qed

section \<open>Numbers\<close>

text \<open>
  \<open>atoi\<close>: leading white space, a sign, digits. The result is undefined in C when the value is
  no \<open>int\<close>, which is \<open>None\<close>.
\<close>

definition isspace_c :: "char \<Rightarrow> bool" where
  "isspace_c c \<longleftrightarrow> c \<in> {CHR '' '', CHR 0x09, CHR 0x0A, CHR 0x0B, CHR 0x0C, CHR 0x0D}"

definition isdigit_c :: "char \<Rightarrow> bool" where
  "isdigit_c c \<longleftrightarrow> CHR ''0'' \<le> c \<and> c \<le> CHR ''9''"

definition digits_value :: "string \<Rightarrow> int" where
  "digits_value ds = foldl (\<lambda>n c. n * 10 + (of_char c - of_char CHR ''0'')) 0 ds"

definition int_result :: "int \<Rightarrow> int option" where
  "int_result v = (if - (2 ^ 31) \<le> v \<and> v < 2 ^ 31 then Some v else None)"

definition atoi :: "string \<Rightarrow> int option" where
  "atoi s =
    (let t = dropWhile isspace_c s;
         (neg, t) = (case t of [] \<Rightarrow> (False, t)
                     | c # u \<Rightarrow> if c = CHR ''-'' then (True, u) else if c = CHR ''+'' then (False, u) else (False, t));
         n = digits_value (takeWhile isdigit_c t);
         v = (if neg then - n else n)
     in int_result v)"

lemma atoi_range: "atoi s = Some n \<Longrightarrow> - (2 ^ 31) \<le> n \<and> n < 2 ^ 31"
  by (auto simp: atoi_def Let_def case_prod_unfold int_result_def split: if_splits)

text \<open>Reading a printed number back; \<open>fmt_d\<close> is \<open>%d\<close> and \<open>%lld\<close>.\<close>

definition read_d :: "string \<Rightarrow> int option" where
  "read_d s =
    (case s of
       [] \<Rightarrow> None
     | c # t \<Rightarrow> if c = CHR ''-'' then (if t \<noteq> [] \<and> list_all isdigit_c t then Some (- digits_value t) else None)
               else if list_all isdigit_c s then Some (digits_value s) else None)"

lemma dec_digit_ok:
  assumes "n < 10"
  shows "isdigit_c (dec_digit n)" and "of_char (dec_digit n) - of_char CHR ''0'' = int n"
    and "dec_digit n \<noteq> CHR ''-''"
proof -
  have "list_all (\<lambda>n. isdigit_c (dec_digit n) \<and> of_char (dec_digit n) - of_char CHR ''0'' = int n
          \<and> dec_digit n \<noteq> CHR ''-'') [0..<10]"
    by code_simp
  with assms show "isdigit_c (dec_digit n)" and "of_char (dec_digit n) - of_char CHR ''0'' = int n"
    and "dec_digit n \<noteq> CHR ''-''"
    by (auto simp: list_all_iff)
qed

lemma digits_value_snoc [simp]: "digits_value (ds @ [c]) = digits_value ds * 10 + (of_char c - of_char CHR ''0'')"
  by (simp add: digits_value_def)

lemma digits_value_Nil [simp]: "digits_value [] = 0"
  by (simp add: digits_value_def)

lemma fmt_u_ok: "fmt_u n \<noteq> [] \<and> list_all isdigit_c (fmt_u n) \<and> digits_value (fmt_u n) = int n"
proof (induction n rule: fmt_u.induct)
  case (1 n)
  show ?case
  proof (cases "n < 10")
    case True
    then show ?thesis
      using dec_digit_ok(1,2) [OF True] digits_value_snoc [of "[]"] by (simp add: fmt_u.simps [of n])
  next
    case False
    have "n mod 10 < 10" by simp
    moreover have "int (n div 10) * 10 + int (n mod 10) = int n"
      by (metis div_mult_mod_eq of_nat_add of_nat_mult of_nat_numeral)
    ultimately show ?thesis
      using 1 False
        dec_digit_ok(1,2) [of "n mod 10"] by (simp add: fmt_u.simps [of n])
  qed
qed

lemma digit_not_sign: "isdigit_c c \<Longrightarrow> c \<noteq> CHR ''-''"
  by (auto simp: isdigit_c_def less_eq_char_def)

lemma read_fmt_d: "read_d (fmt_d i) = Some i"
proof (cases "i < 0")
  case True
  then show ?thesis using fmt_u_ok [of "nat (- i)"] by (simp add: fmt_d_def read_d_def)
next
  case False
  obtain c t where ct: "fmt_u (nat i) = c # t" using fmt_u_ok [of "nat i"] by (cases "fmt_u (nat i)") auto
  with fmt_u_ok [of "nat i"] False show ?thesis
    using digit_not_sign [of c] by (simp add: fmt_d_def read_d_def)
qed

interpretation decimal: codec fmt_d read_d "\<lambda>_. True"
  by unfold_locales (rule read_fmt_d)

lemma fmt_d_set: "c \<in> set (fmt_d i) \<Longrightarrow> isdigit_c c \<or> c = CHR ''-''"
  using fmt_u_ok [of "nat i"] fmt_u_ok [of "nat (- i)"]
  by (auto simp: fmt_d_def list_all_iff split: if_splits)

section \<open>Files of lines\<close>

definition newline :: char where
  "newline = CHR 0x0A"

definition line_ok :: "string \<Rightarrow> bool" where
  "line_ok l \<longleftrightarrow> newline \<notin> set l"

definition unlines :: "string list \<Rightarrow> string" where
  "unlines ls = concat (map (\<lambda>l. l @ [newline]) ls)"

text \<open>The complete lines of a text, without their ends.\<close>

function lines_of :: "string \<Rightarrow> string list" where
  "lines_of s =
    (if newline \<in> set s
     then takeWhile (\<lambda>c. c \<noteq> newline) s # lines_of (tl (dropWhile (\<lambda>c. c \<noteq> newline) s))
     else [])"
  by pat_completeness auto
termination
proof (relation "measure length")
  fix s :: string
  assume "newline \<in> set s"
  then have "dropWhile (\<lambda>c. c \<noteq> newline) s \<noteq> []" by (simp add: dropWhile_eq_Nil_conv)
  moreover have "length (dropWhile (\<lambda>c. c \<noteq> newline) s) \<le> length s" by (rule length_dropWhile_le)
  ultimately have "length (tl (dropWhile (\<lambda>c. c \<noteq> newline) s)) < length s"
    by (cases "dropWhile (\<lambda>c. c \<noteq> newline) s") simp_all
  then show "(tl (dropWhile (\<lambda>c. c \<noteq> newline) s), s) \<in> measure length" by simp
qed simp

declare lines_of.simps [simp del]

lemma lines_of_Nil [simp]: "lines_of [] = []"
  by (simp add: lines_of.simps [of "[]"])

lemma lines_of_line:
  assumes "line_ok l"
  shows "lines_of (l @ newline # t) = l # lines_of t"
proof -
  have "\<And>c. c \<in> set l \<Longrightarrow> c \<noteq> newline" using assms by (auto simp: line_ok_def)
  then show ?thesis
    by (simp add: lines_of.simps [of "l @ newline # t"] takeWhile_append2 dropWhile_append2)
qed

lemma unlines_simps [simp]: "unlines [] = []" "unlines (l # ls) = l @ newline # unlines ls"
  "unlines (ks @ ls) = unlines ks @ unlines ls"
  by (simp_all add: unlines_def)

lemma lines_of_unlines: "list_all line_ok ls \<Longrightarrow> lines_of (unlines ls) = ls"
  by (induction ls) (simp_all add: lines_of_line)

interpretation text_file: codec unlines "\<lambda>s. Some (lines_of s)" "list_all line_ok"
  by unfold_locales (simp add: lines_of_unlines)

end
