(* ===== verification/Daemon_State.thy ===== *)
theory Daemon_State
  imports Session Std_Lib
begin

text \<open>
  What the halves of the daemon share: the snapshot type (\<open>daemon/src/state.h\<close>) and the part
  of the GLib main loop the daemon uses (timeout sources). The lemmas say that the loop never
  holds two sources with one identifier and that each is owned by a field of its component.
\<close>

section \<open>The snapshot\<close>

record component_view =
  cv_status :: string
  cv_level :: "u8 option"
  cv_raw_level :: u8
  cv_framing_anomaly :: bool

record state =
  v_address :: string
  v_phase :: string
  v_channel_open :: bool
  v_status :: string
  v_have_battery :: bool
  v_parse_refusals :: int
  v_components :: "component_view smap"

definition default_state :: state where
  "default_state = \<lparr>v_address = '''', v_phase = ''closed'', v_channel_open = False,
     v_status = ''starting'', v_have_battery = False, v_parse_refusals = 0, v_components = []\<rparr>"

section \<open>Timeout sources of the main loop\<close>

text \<open>
  GLib's answers are a parameter: \<open>gid n\<close> is the identifier of the \<open>n\<close>-th source added. The
  daemon relies on the documented fact that identifiers are positive and not reused
  (\<open>glib_ids\<close>). The list of live sources records what the program asked for.
\<close>

datatype source = TickTimer int | RetryTimer int | SelfTestTimer int | RescanTimer int

record main_loop =
  l_added :: nat
  l_live :: "(nat \<times> source) list"

definition glib_ids :: "(nat \<Rightarrow> nat) \<Rightarrow> bool" where
  "glib_ids gid \<longleftrightarrow> inj gid \<and> (\<forall>n. gid n \<noteq> 0)"

definition timeout_add :: "(nat \<Rightarrow> nat) \<Rightarrow> source \<Rightarrow> main_loop \<Rightarrow> nat \<times> main_loop" where
  "timeout_add gid src l =
     (gid (l_added l), \<lparr>l_added = Suc (l_added l), l_live = l_live l @ [(gid (l_added l), src)]\<rparr>)"

definition source_remove :: "nat \<Rightarrow> main_loop \<Rightarrow> main_loop" where
  "source_remove i l = l\<lparr>l_live := filter (\<lambda>(j, _). j \<noteq> i) (l_live l)\<rparr>"

text \<open>The bookkeeping is sound: live identifiers were handed out, and each once.\<close>

definition loop_ok :: "(nat \<Rightarrow> nat) \<Rightarrow> main_loop \<Rightarrow> bool" where
  "loop_ok gid l \<longleftrightarrow> fst ` set (l_live l) \<subseteq> gid ` {..< l_added l} \<and> distinct (map fst (l_live l))"

lemma timeout_add_sels [simp]:
  "fst (timeout_add gid src l) = gid (l_added l)"
  "l_live (snd (timeout_add gid src l)) = l_live l @ [(gid (l_added l), src)]"
  "l_added (snd (timeout_add gid src l)) = Suc (l_added l)"
  by (simp_all add: timeout_add_def)

lemma source_remove_sels [simp]:
  "set (l_live (source_remove i l)) = {p \<in> set (l_live l). fst p \<noteq> i}"
  "l_added (source_remove i l) = l_added l"
  by (auto simp: source_remove_def)

lemma fresh_id: "glib_ids gid \<Longrightarrow> loop_ok gid l \<Longrightarrow> gid (l_added l) \<notin> fst ` set (l_live l)"
proof
  assume g: "glib_ids gid" and l: "loop_ok gid l" and "gid (l_added l) \<in> fst ` set (l_live l)"
  then have "gid (l_added l) \<in> gid ` {..<l_added l}" unfolding loop_ok_def by blast
  then obtain m where "m < l_added l" "gid (l_added l) = gid m" by blast
  with g show False by (simp add: glib_ids_def inj_eq)
qed

lemma loop_ok_add:
  assumes "glib_ids gid" "loop_ok gid l"
  shows "loop_ok gid (snd (timeout_add gid src l))"
  using fresh_id [OF assms] assms(2) by (auto simp: loop_ok_def lessThan_Suc)

lemma loop_ok_remove: "loop_ok gid l \<Longrightarrow> loop_ok gid (source_remove i l)"
  unfolding loop_ok_def by (auto simp: source_remove_def distinct_map_filter)


section \<open>Who owns a source\<close>

text \<open>
  Every live source belongs to the field that remembers its identifier, one per kind. The
  sources in \<open>X\<close> are being dispatched: their owner may already have forgotten them.
\<close>

datatype source_kind = KTick | KRetry | KSelfTest | KRescan

fun kind_of :: "source \<Rightarrow> source_kind" where
  "kind_of (TickTimer _) = KTick"
| "kind_of (RetryTimer _) = KRetry"
| "kind_of (SelfTestTimer _) = KSelfTest"
| "kind_of (RescanTimer _) = KRescan"

definition wired :: "(nat \<Rightarrow> nat) \<Rightarrow> nat set \<Rightarrow> main_loop \<Rightarrow> (source_kind \<Rightarrow> nat) \<Rightarrow> bool" where
  "wired gid X l own \<longleftrightarrow> loop_ok gid l \<and> X \<subseteq> fst ` set (l_live l) \<and>
     (\<forall>i src. (i, src) \<in> set (l_live l) \<longrightarrow> i \<notin> X \<longrightarrow> i = own (kind_of src)) \<and>
     (\<forall>kd. own kd \<noteq> 0 \<longrightarrow> own kd \<notin> X \<and> (\<exists>src. (own kd, src) \<in> set (l_live l) \<and> kind_of src = kd))"

lemma live_nonzero: "glib_ids gid \<Longrightarrow> loop_ok gid l \<Longrightarrow> (i, src) \<in> set (l_live l) \<Longrightarrow> i \<noteq> 0"
proof -
  assume g: "glib_ids gid" and "loop_ok gid l" and "(i, src) \<in> set (l_live l)"
  then have "i \<in> gid ` {..<l_added l}" unfolding loop_ok_def by force
  with g show "i \<noteq> 0" by (metis glib_ids_def imageE)
qed

lemma live_unique:
  "loop_ok gid l \<Longrightarrow> (i, src) \<in> set (l_live l) \<Longrightarrow> (i, src') \<in> set (l_live l) \<Longrightarrow> src = src'"
  unfolding loop_ok_def by (metis eq_key_imp_eq_value)

lemma wiredI:
  assumes "loop_ok gid l" and "X \<subseteq> fst ` set (l_live l)"
    and "\<And>i src. (i, src) \<in> set (l_live l) \<Longrightarrow> i \<notin> X \<Longrightarrow> i = own (kind_of src)"
    and "\<And>kd. own kd \<noteq> 0 \<Longrightarrow> own kd \<notin> X"
    and "\<And>kd. own kd \<noteq> 0 \<Longrightarrow> \<exists>src. (own kd, src) \<in> set (l_live l) \<and> kind_of src = kd"
  shows "wired gid X l own"
  using assms unfolding wired_def by blast

lemma wiredD:
  assumes "wired gid X l own"
  shows "loop_ok gid l" and "X \<subseteq> fst ` set (l_live l)"
    and "(i, src) \<in> set (l_live l) \<Longrightarrow> i \<notin> X \<Longrightarrow> i = own (kind_of src)"
    and "own kd \<noteq> 0 \<Longrightarrow> own kd \<notin> X"
    and "own kd \<noteq> 0 \<Longrightarrow> \<exists>src. (own kd, src) \<in> set (l_live l) \<and> kind_of src = kd"
  using assms unfolding wired_def by blast+

lemma wired_add:
  assumes g: "glib_ids gid" and w: "wired gid X l own" and free: "own (kind_of src) = 0"
  shows "wired gid X (snd (timeout_add gid src l)) (own(kind_of src := gid (l_added l)))"
proof (rule wiredI)
  note D = wiredD [OF w]
  have fr: "gid (l_added l) \<notin> fst ` set (l_live l)" using fresh_id [OF g D(1)] .
  show "loop_ok gid (snd (timeout_add gid src l))" using loop_ok_add [OF g D(1)] .
  show "X \<subseteq> fst ` set (l_live (snd (timeout_add gid src l)))" using D(2) by auto
  fix i s assume i: "(i, s) \<in> set (l_live (snd (timeout_add gid src l)))" and X: "i \<notin> X"
  show "i = (own(kind_of src := gid (l_added l))) (kind_of s)"
  proof (cases "(i, s) \<in> set (l_live l)")
    case True
    then have "i = own (kind_of s)" and "i \<noteq> 0" using D(3) X live_nonzero [OF g D(1)] by blast+
    with free show ?thesis by auto
  next
    case False
    with i show ?thesis by simp
  qed
next
  note D = wiredD [OF w]
  have fr: "gid (l_added l) \<notin> fst ` set (l_live l)" using fresh_id [OF g D(1)] .
  fix kd assume k: "(own(kind_of src := gid (l_added l))) kd \<noteq> 0"
  show "(own(kind_of src := gid (l_added l))) kd \<notin> X"
    using k D(2,4) fr by (cases "kd = kind_of src") auto
  show "\<exists>s. ((own(kind_of src := gid (l_added l))) kd, s) \<in> set (l_live (snd (timeout_add gid src l)))
      \<and> kind_of s = kd"
    using k D(5) [of kd] by (cases "kd = kind_of src") auto
qed

lemma wired_distinct:
  assumes w: "wired gid X l own" and "own kd \<noteq> 0" "kd' \<noteq> kd"
  shows "own kd' \<noteq> own kd"
proof
  assume eq: "own kd' = own kd"
  with assms(2) have "own kd' \<noteq> 0" by simp
  then obtain s s' where "(own kd, s) \<in> set (l_live l)" "kind_of s = kd"
    and "(own kd, s') \<in> set (l_live l)" "kind_of s' = kd'"
    using wiredD(5) [OF w] assms(2) eq by metis
  with live_unique [OF wiredD(1) [OF w]] assms(3) show False by metis
qed

lemma wired_remove:
  assumes w: "wired gid X l own" and some: "own kd \<noteq> 0"
  shows "wired gid X (source_remove (own kd) l) (own(kd := 0))"
proof (rule wiredI)
  note D = wiredD [OF w] and other = wired_distinct [OF w some]
  show "loop_ok gid (source_remove (own kd) l)" using loop_ok_remove [OF D(1)] .
  show "X \<subseteq> fst ` set (l_live (source_remove (own kd) l))"
  proof
    fix x assume x: "x \<in> X"
    with D(2) obtain s where "(x, s) \<in> set (l_live l)" by auto
    with x D(4) some show "x \<in> fst ` set (l_live (source_remove (own kd) l))" by force
  qed
  fix i s assume "(i, s) \<in> set (l_live (source_remove (own kd) l))" and "i \<notin> X"
  with D(3) show "i = (own(kd := 0)) (kind_of s)" by auto
next
  note D = wiredD [OF w] and other = wired_distinct [OF w some]
  fix k assume "(own(kd := 0)) k \<noteq> 0"
  then have k: "k \<noteq> kd" "own k \<noteq> 0" by (auto split: if_splits)
  with D(4) show "(own(kd := 0)) k \<notin> X" by simp
  from k D(5) other [of k] show "\<exists>s. ((own(kd := 0)) k, s) \<in> set (l_live (source_remove (own kd) l)) \<and> kind_of s = k"
    by simp
qed

text \<open>Dispatching: the owner forgets the source, and the loop destroys it afterwards.\<close>

lemma wired_dispatch:
  assumes w: "wired gid {} l own" and src: "(i, src) \<in> set (l_live l)" and "i \<noteq> 0"
  shows "wired gid {i} l (own(kind_of src := 0))"
proof (rule wiredI)
  note D = wiredD [OF w]
  have i: "own (kind_of src) = i" using D(3) [OF src] by simp
  show "loop_ok gid l" by (rule D(1))
  show "{i} \<subseteq> fst ` set (l_live l)" using src by force
  fix j s assume "(j, s) \<in> set (l_live l)" and "j \<notin> {i}"
  with D(3) [of j s] i show "j = (own(kind_of src := 0)) (kind_of s)" by auto
next
  note D = wiredD [OF w]
  have i: "own (kind_of src) = i" using D(3) [OF src] by simp
  fix k assume "(own(kind_of src := 0)) k \<noteq> 0"
  then have k: "k \<noteq> kind_of src" "own k \<noteq> 0" by (auto split: if_splits)
  with wired_distinct [OF w, of "kind_of src" k] i assms(3)
  show "(own(kind_of src := 0)) k \<notin> {i}" by simp
  from k D(5) show "\<exists>s. ((own(kind_of src := 0)) k, s) \<in> set (l_live l) \<and> kind_of s = k"
    by simp
qed

lemma wired_done:
  assumes "wired gid {i} l own"
  shows "wired gid {} (source_remove i l) own"
  using assms loop_ok_remove unfolding wired_def by auto

lemma wired_live_is_owned:
  "glib_ids gid \<Longrightarrow> wired gid {} l own \<Longrightarrow> (i, src) \<in> set (l_live l) \<Longrightarrow> own (kind_of src) = i \<and> i \<noteq> 0"
  using live_nonzero by (auto simp: wired_def)

end
