(* ===== verification/Bluez_Watch.thy ===== *)
theory Bluez_Watch
  imports Daemon_State
begin

text \<open>
  The watch on BlueZ: \<open>daemon/src/bluez_watch.h\<close> and \<open>daemon/src/bluez_watch.cpp\<close>. BlueZ's
  object tree and its signals are inputs. Every operation returns the new watch and what it
  reported through its callback, if anything. The lemmas say that the callback fires exactly
  on changes and on the first look, that the device is found whatever the case of its address,
  that signals of other devices are ignored, and that at most one rescan is pending.
\<close>

section \<open>BlueZ's object tree\<close>

record bluez_device =
  dev_address :: "string option"
  dev_connected :: "bool option"

record bluez_object =
  obj_device :: "bluez_device option"
  obj_manager :: bool

type_synonym managed = "(string \<times> bluez_object) list"

section \<open>The watch\<close>

record watch =
  bw_mac :: string
  bw_path :: string
  bw_connected :: bool
  bw_primed :: bool
  bw_sys :: bool
  bw_timer :: nat

definition upper :: "string \<Rightarrow> string" where
  "upper s = map toupper_c s"

definition kRescanDebounceMs :: int where
  "kRescanDebounceMs = 200"

definition new_watch :: "string \<Rightarrow> watch" where
  "new_watch mac = \<lparr>bw_mac = upper mac, bw_path = '''', bw_connected = False, bw_primed = False,
                    bw_sys = False, bw_timer = 0\<rparr>"

text \<open>What the callback is given: the connected flag and the object path.\<close>

type_synonym report = "(bool \<times> string) option"

definition bw_update :: "bool \<Rightarrow> string \<Rightarrow> watch \<Rightarrow> watch \<times> report" where
  "bw_update c path w =
    (let changed = (\<not> bw_primed w \<or> c \<noteq> bw_connected w \<or> path \<noteq> bw_path w);
         w = w\<lparr>bw_connected := c, bw_path := path, bw_primed := True\<rparr>
     in (w, if changed then Some (bw_connected w, bw_path w) else None))"

text \<open>
  The loop over the managed objects: it stops at the first match with a non-empty path. An
  absent \<open>Connected\<close> is false.
\<close>

fun scan_objects :: "string \<Rightarrow> managed \<Rightarrow> string \<times> bool \<Rightarrow> string \<times> bool" where
  "scan_objects mac [] found = found"
| "scan_objects mac ((obj_path, ifaces) # rest) found =
    (let found = (case obj_device ifaces of
           None \<Rightarrow> found
         | Some dev \<Rightarrow>
             (case dev_address dev of
                None \<Rightarrow> found
              | Some addr \<Rightarrow>
                  if upper addr = mac
                  then (obj_path, case dev_connected dev of Some c \<Rightarrow> c | None \<Rightarrow> False)
                  else found))
     in if fst found \<noteq> '''' then found else scan_objects mac rest found)"

definition bw_rescan :: "managed option \<Rightarrow> watch \<Rightarrow> watch \<times> report" where
  "bw_rescan reply w =
    (if \<not> bw_sys w then (w, None)
     else case reply of
       None \<Rightarrow> bw_update False '''' w
     | Some objects \<Rightarrow>
         (let (found_path, found_connected) = scan_objects (bw_mac w) objects ('''', False)
          in bw_update found_connected found_path w))"

definition bw_rescan_soon :: "(nat \<Rightarrow> nat) \<Rightarrow> watch \<Rightarrow> main_loop \<Rightarrow> watch \<times> main_loop" where
  "bw_rescan_soon gid w l =
    (let l = (if bw_timer w \<noteq> 0 then source_remove (bw_timer w) l else l);
         (i, l) = timeout_add gid (RescanTimer kRescanDebounceMs) l
     in (w\<lparr>bw_timer := i\<rparr>, l))"

definition bw_rescan_trampoline :: "managed option \<Rightarrow> watch \<Rightarrow> watch \<times> report" where
  "bw_rescan_trampoline reply w = bw_rescan reply (w\<lparr>bw_timer := 0\<rparr>)"

definition bw_props_changed :: "string \<Rightarrow> bool option \<Rightarrow> watch \<Rightarrow> watch \<times> report" where
  "bw_props_changed object_path changed w =
    (if bw_path w = '''' \<or> bw_path w \<noteq> object_path then (w, None)
     else case changed of None \<Rightarrow> (w, None) | Some c \<Rightarrow> bw_update c (bw_path w) w)"

definition bw_interfaces_changed :: "(nat \<Rightarrow> nat) \<Rightarrow> watch \<Rightarrow> main_loop \<Rightarrow> watch \<times> main_loop" where
  "bw_interfaces_changed gid w l = bw_rescan_soon gid w l"

definition bw_appeared :: "managed option \<Rightarrow> watch \<Rightarrow> watch \<times> report" where
  "bw_appeared reply w = bw_rescan reply w"

definition bw_vanished :: "watch \<Rightarrow> watch \<times> report" where
  "bw_vanished w = bw_update False '''' w"

definition bw_destroy :: "watch \<Rightarrow> main_loop \<Rightarrow> main_loop" where
  "bw_destroy w l = (if bw_timer w \<noteq> 0 then source_remove (bw_timer w) l else l)"

text \<open>
  All the destructor gives back, in its order. The name watch and the three subscriptions are
  made when the bus is there, and \<open>bw_destroy\<close> is what of this the main loop sees.
\<close>

datatype watch_release =
    UnwatchName | RemoveRescan nat | UnsubscribeProps | UnsubscribeAdded | UnsubscribeRemoved | UnrefSystemBus

definition bw_release :: "watch \<Rightarrow> watch_release list" where
  "bw_release w =
     (if bw_sys w then [UnwatchName] else []) @ (if bw_timer w \<noteq> 0 then [RemoveRescan (bw_timer w)] else []) @
     (if bw_sys w then [UnsubscribeProps, UnsubscribeAdded, UnsubscribeRemoved, UnrefSystemBus] else [])"

text \<open>
  Starting: \<open>bus\<close> says whether the system bus is reachable. The subscriptions are calls into
  GDBus; that signals arrive is an input of the handlers above.
\<close>

definition bw_start :: "bool \<Rightarrow> managed option \<Rightarrow> watch \<Rightarrow> bool \<times> watch \<times> report" where
  "bw_start bus reply w =
    (if \<not> bus then (False, w, None)
     else let (w, r) = bw_rescan reply (w\<lparr>bw_sys := True\<rparr>) in (True, w, r))"

section \<open>Lemmas\<close>

lemma upper_idem [simp]: "upper (upper s) = upper s"
  by (simp add: upper_def)

lemma new_watch_mac: "bw_mac (new_watch mac) = upper mac"
  by (simp add: new_watch_def)

text \<open>
  The view a listener has after a report is the view the watch has: the callback fires
  exactly when the pair it would report differs from the last one, or on the first look.
\<close>

definition bw_view :: "watch \<Rightarrow> bool \<times> string" where
  "bw_view w = (bw_connected w, bw_path w)"

lemma bw_update_report:
  "snd (bw_update c path w) =
     (if bw_primed w \<and> bw_view w = (c, path) then None else Some (c, path))"
  "bw_view (fst (bw_update c path w)) = (c, path)"
  "bw_primed (fst (bw_update c path w))"
  by (auto simp: bw_update_def bw_view_def Let_def)

lemma bw_update_sels [simp]:
  "bw_mac (fst (bw_update c path w)) = bw_mac w" "bw_sys (fst (bw_update c path w)) = bw_sys w"
  "bw_timer (fst (bw_update c path w)) = bw_timer w"
  "bw_connected (fst (bw_update c path w)) = c" "bw_path (fst (bw_update c path w)) = path"
  by (simp_all add: bw_update_def Let_def)

text \<open>The reference for the scan: the first object with our address, connected or not.\<close>

definition is_ours :: "string \<Rightarrow> string \<times> bluez_object \<Rightarrow> bool" where
  "is_ours mac o' \<longleftrightarrow> (\<exists>dev addr. obj_device (snd o') = Some dev \<and> dev_address dev = Some addr \<and> upper addr = mac)"

definition connected_flag :: "bluez_object \<Rightarrow> bool" where
  "connected_flag o' = (case obj_device o' of
     Some dev \<Rightarrow> (case dev_connected dev of Some c \<Rightarrow> c | None \<Rightarrow> False) | None \<Rightarrow> False)"

definition paths_ok :: "managed \<Rightarrow> bool" where
  "paths_ok objs \<longleftrightarrow> (\<forall>o' \<in> set objs. fst o' \<noteq> '''')"

lemma scan_objects_step:
  "scan_objects mac (a # rest) found =
     (let found = (if is_ours mac a then (fst a, connected_flag (snd a)) else found)
      in if fst found \<noteq> '''' then found else scan_objects mac rest found)"
proof -
  obtain p o' where a: "a = (p, o')" by (cases a)
  show ?thesis
  proof (cases "obj_device o'")
    case None
    then show ?thesis by (simp add: a is_ours_def)
  next
    case (Some dev)
    then show ?thesis by (cases "dev_address dev") (simp_all add: a is_ours_def connected_flag_def)
  qed
qed

lemma scan_objects_first:
  "paths_ok objs \<Longrightarrow> scan_objects mac objs ('''', False) =
     (case find (is_ours mac) objs of None \<Rightarrow> ('''', False) | Some (p, o') \<Rightarrow> (p, connected_flag o'))"
proof (induction objs)
  case Nil
  then show ?case by simp
next
  case (Cons a objs)
  obtain p o' where a: "a = (p, o')" by (cases a)
  have "paths_ok objs" and p: "p \<noteq> ''''" using Cons.prems by (auto simp: paths_ok_def a)
  then have IH: "scan_objects mac objs ('''', False) =
     (case find (is_ours mac) objs of None \<Rightarrow> ('''', False) | Some (p, o') \<Rightarrow> (p, connected_flag o'))"
    by (simp add: Cons.IH)
  show ?case
    using IH p by (simp add: scan_objects_step a del: scan_objects.simps)
qed

lemma bw_rescan_sels [simp]:
  "bw_mac (fst (bw_rescan reply w)) = bw_mac w" "bw_sys (fst (bw_rescan reply w)) = bw_sys w"
  "bw_timer (fst (bw_rescan reply w)) = bw_timer w"
  by (auto simp: bw_rescan_def case_prod_unfold Let_def split: option.splits)

lemma bw_props_changed_sels [simp]:
  "bw_timer (fst (bw_props_changed op c w)) = bw_timer w"
  by (auto simp: bw_props_changed_def split: option.splits)

lemma other_device_ignored: "op \<noteq> bw_path w \<Longrightarrow> bw_props_changed op c w = (w, None)"
  by (auto simp: bw_props_changed_def)

lemma bw_report_is_view:
  "snd (bw_rescan reply w) = Some v \<Longrightarrow> v = bw_view (fst (bw_rescan reply w))"
  "snd (bw_props_changed op c w) = Some v \<Longrightarrow> v = bw_view (fst (bw_props_changed op c w))"
  "snd (bw_vanished w) = Some v \<Longrightarrow> v = bw_view (fst (bw_vanished w))"
  by (auto simp: bw_rescan_def bw_props_changed_def bw_vanished_def bw_update_report case_prod_unfold Let_def
      split: option.splits if_splits)

text \<open>No report means the view did not change; the listener is never behind.\<close>

lemma bw_no_report_same_view:
  "snd (bw_rescan reply w) = None \<Longrightarrow> bw_view (fst (bw_rescan reply w)) = bw_view w"
  "snd (bw_props_changed op c w) = None \<Longrightarrow> bw_view (fst (bw_props_changed op c w)) = bw_view w"
  "snd (bw_vanished w) = None \<Longrightarrow> bw_view (fst (bw_vanished w)) = bw_view w"
  by (auto simp: bw_rescan_def bw_props_changed_def bw_vanished_def bw_update_report case_prod_unfold Let_def
      split: option.splits if_splits)

text \<open>At most one rescan is pending, and the timer names it.\<close>

definition rescan_pending :: "watch \<Rightarrow> main_loop \<Rightarrow> bool" where
  "rescan_pending w l \<longleftrightarrow>
     (\<forall>i src. (i, src) \<in> set (l_live l) \<and> src = RescanTimer kRescanDebounceMs \<longrightarrow> i = bw_timer w) \<and>
     (bw_timer w \<noteq> 0 \<longrightarrow> (bw_timer w, RescanTimer kRescanDebounceMs) \<in> set (l_live l))"

lemma bw_rescan_soon_pending:
  assumes "glib_ids gid" and "loop_ok gid l" and "rescan_pending w l"
    and r: "bw_rescan_soon gid w l = (w', l')"
  shows "rescan_pending w' l'" and "bw_timer w' \<noteq> 0" and "loop_ok gid l'"
proof -
  define l1 where "l1 = (if bw_timer w \<noteq> 0 then source_remove (bw_timer w) l else l)"
  have w': "w' = w\<lparr>bw_timer := gid (l_added l1)\<rparr>"
    and l': "l' = snd (timeout_add gid (RescanTimer kRescanDebounceMs) l1)"
    using r by (auto simp: bw_rescan_soon_def Let_def case_prod_unfold l1_def)
  have ok1: "loop_ok gid l1" using assms(2) by (simp add: l1_def loop_ok_remove)
  have none: "(i, RescanTimer kRescanDebounceMs) \<notin> set (l_live l1)" for i
  proof (cases "bw_timer w = 0")
    case False
    then show ?thesis using assms(3) by (auto simp: l1_def rescan_pending_def)
  next
    case True
    have "0 \<notin> gid ` {..<l_added l}" using assms(1) by (metis glib_ids_def imageE)
    then have "(0, RescanTimer kRescanDebounceMs) \<notin> set (l_live l)"
      using assms(2) by (force simp: loop_ok_def)
    then show ?thesis using True assms(3) by (auto simp: l1_def rescan_pending_def)
  qed
  show "rescan_pending w' l'" using none by (auto simp: w' l' rescan_pending_def)
  show "bw_timer w' \<noteq> 0" using assms(1) by (simp add: w' glib_ids_def)
  show "loop_ok gid l'" using loop_ok_add [OF assms(1) ok1] by (simp add: l')
qed

section \<open>Properties\<close>

text \<open>What happens to a started watch, and what its callback was given, in order.\<close>

datatype watch_event = WRescan "managed option" | WProps string "bool option" | WVanished

fun watch_do :: "watch_event \<Rightarrow> watch \<Rightarrow> watch \<times> report" where
  "watch_do (WRescan reply) w = bw_rescan reply w"
| "watch_do (WProps path c) w = bw_props_changed path c w"
| "watch_do WVanished w = bw_vanished w"

fun watch_run :: "watch_event list \<Rightarrow> watch \<Rightarrow> (bool \<times> string) list \<times> watch" where
  "watch_run [] w = ([], w)"
| "watch_run (e # es) w =
     (let (w, r) = watch_do e w; (rs, w) = watch_run es w
      in ((case r of None \<Rightarrow> rs | Some v \<Rightarrow> v # rs), w))"

lemma watch_do_report:
  assumes "bw_primed w"
  shows "bw_primed (fst (watch_do e w))"
    and "snd (watch_do e w) = (if bw_view (fst (watch_do e w)) = bw_view w then None
                                else Some (bw_view (fst (watch_do e w))))"
  using assms
  by (cases e; auto simp: bw_rescan_def bw_props_changed_def bw_vanished_def bw_update_report
      case_prod_unfold Let_def split: option.split)+

lemma watch_run_reports:
  "bw_primed w \<Longrightarrow> distinct_adj (bw_view w # fst (watch_run es w))
     \<and> last (bw_view w # fst (watch_run es w)) = bw_view (snd (watch_run es w))"
proof (induction es arbitrary: w)
  case Nil
  then show ?case by simp
next
  case (Cons e es)
  show ?case
    using Cons.IH [OF watch_do_report(1) [OF Cons.prems], of e] watch_do_report(2) [OF Cons.prems, of e]
    by (auto simp: case_prod_unfold Let_def split: if_splits)
qed

text \<open>
  C36: The callback says what is new and never anything else: starting reports the first view,
  and after it, whatever BlueZ answers and signals, no report repeats the one before it and the
  last report is the watch's present view, so its listener is never behind.
\<close>

theorem watch_reports_changes:
  "case bw_start True reply (new_watch mac) of (started, w0, r0) \<Rightarrow>
     (case watch_run es w0 of (rs, w') \<Rightarrow>
        started \<and> r0 = Some (bw_view w0) \<and> distinct_adj (bw_view w0 # rs)
        \<and> last (bw_view w0 # rs) = bw_view w')"
proof -
  define w0 where "w0 = fst (snd (bw_start True reply (new_watch mac)))"
  have "bw_primed w0" "bw_start True reply (new_watch mac) = (True, w0, Some (bw_view w0))"
    by (auto simp: w0_def bw_start_def bw_rescan_def bw_update_report new_watch_def case_prod_unfold Let_def
        bw_update_def bw_view_def split: option.split)
  then show ?thesis using watch_run_reports [of w0 es] by (auto simp: case_prod_unfold split: if_splits)
qed

text \<open>
  The device is found by its address whatever the case of the letters on either side: the
  scan gives the first object of BlueZ's tree whose address is ours, with its connected flag
  (absent counts as not connected), and nothing when there is none.
\<close>

theorem scan_finds_device:
  assumes "paths_ok objs"
  shows "scan_objects (bw_mac (new_watch mac)) objs ('''', False) =
    (case find (\<lambda>o'. case obj_device (snd o') of
                       Some dev \<Rightarrow> map_option upper (dev_address dev) = Some (upper mac)
                     | None \<Rightarrow> False) objs of
       None \<Rightarrow> ('''', False)
     | Some (path, o') \<Rightarrow> (path, connected_flag o'))"
proof -
  have "is_ours (upper mac) = (\<lambda>o'. case obj_device (snd o') of
      Some dev \<Rightarrow> map_option upper (dev_address dev) = Some (upper mac) | None \<Rightarrow> False)"
    by (auto simp: is_ours_def fun_eq_iff split: option.split)
  then show ?thesis using scan_objects_first [OF assms, of "upper mac"] by (simp add: new_watch_mac)
qed

definition sample_objects :: managed where
  "sample_objects =
     [(''/org/bluez/hci0'', \<lparr>obj_device = None, obj_manager = True\<rparr>),
      (''/org/bluez/hci0/dev_AA_BB_CC_DD_EE_FF'',
       \<lparr>obj_device = Some \<lparr>dev_address = Some ''AA:BB:CC:DD:EE:FF'', dev_connected = Some True\<rparr>, obj_manager = False\<rparr>)]"

theorem scan_finds_device_witness:
  "scan_objects (bw_mac (new_watch ''aa:bb:cc:dd:ee:ff'')) sample_objects ('''', False)
     = (''/org/bluez/hci0/dev_AA_BB_CC_DD_EE_FF'', True)"
proof -
  have "paths_ok sample_objects" by (simp add: paths_ok_def sample_objects_def)
  then show ?thesis unfolding scan_finds_device [OF \<open>paths_ok sample_objects\<close>] by code_simp
qed

end
