(* ===== verification/Session_Monitor.thy ===== *)
theory Session_Monitor
  imports Session
begin

text \<open>
  A contract for whole-session invariants: a property of the outside world and of the
  consumer's own fields that every system call, every packet sent and every call of the hook
  keeps, is kept by opening, stepping and closing a session. It is used for the descriptors a
  session holds, for the passing of time, and for the transcript of the command line.
\<close>

section \<open>The contract\<close>

text \<open>The names the session gives to what it sends.\<close>

definition packet_names :: "string set" where
  "packet_names = {''handshake'', ''host-capabilities'', ''request-notifications''}"

text \<open>Every field of the session itself may change.\<close>

definition own_fields :: "'z session_scheme \<Rightarrow> 'z session_scheme \<Rightarrow> 'z session_scheme" where
  "own_fields t s = s\<lparr>s_phase := s_phase t, s_started := s_started t, s_phase_at := s_phase_at t,
     s_buf := s_buf t, s_last_battery := s_last_battery t, s_battery_at := s_battery_at t,
     s_battery_seen := s_battery_seen t, s_refusals := s_refusals t,
     s_notify_sent_at := s_notify_sent_at t, s_notify_resent := s_notify_resent t\<rparr>"

locale session_monitor =
  fixes os :: os and hook :: "'z hook" and P :: "'z session_scheme \<Rightarrow> bool"
  assumes own: "P s \<Longrightarrow> P (own_fields t s)"
    and tick: "P s \<Longrightarrow> P (tick_ix s)"
    and sleep: "P s \<Longrightarrow> P (log_ev (SysSleep ms) s)"
    and sock_close: "P s \<Longrightarrow> P (sock_close s)"
    and connect: "P s \<Longrightarrow> P (snd (connect_to os mac sec s))"
    and emit: "P s \<Longrightarrow> what \<in> packet_names \<Longrightarrow> P (snd (emit os hook bs what s))"
    and read: "P s \<Longrightarrow> P (snd (snd (read_packet os tmo out s)))"
    and received: "P s \<Longrightarrow> P (call_hook hook Received bs None s)"
begin

lemma own_upds [simp, intro]:
  assumes "P s"
  shows "P (s\<lparr>s_phase := a\<rparr>)" "P (s\<lparr>s_started := b\<rparr>)" "P (s\<lparr>s_phase_at := b\<rparr>)" "P (s\<lparr>s_buf := c\<rparr>)"
    "P (s\<lparr>s_last_battery := d\<rparr>)" "P (s\<lparr>s_battery_at := b\<rparr>)" "P (s\<lparr>s_battery_seen := e\<rparr>)"
    "P (s\<lparr>s_refusals := b\<rparr>)" "P (s\<lparr>s_notify_sent_at := b\<rparr>)" "P (s\<lparr>s_notify_resent := e\<rparr>)"
  using own [OF assms, of "s\<lparr>s_phase := a\<rparr>"] own [OF assms, of "s\<lparr>s_started := b\<rparr>"]
    own [OF assms, of "s\<lparr>s_phase_at := b\<rparr>"] own [OF assms, of "s\<lparr>s_buf := c\<rparr>"]
    own [OF assms, of "s\<lparr>s_last_battery := d\<rparr>"] own [OF assms, of "s\<lparr>s_battery_at := b\<rparr>"]
    own [OF assms, of "s\<lparr>s_battery_seen := e\<rparr>"] own [OF assms, of "s\<lparr>s_refusals := b\<rparr>"]
    own [OF assms, of "s\<lparr>s_notify_sent_at := b\<rparr>"] own [OF assms, of "s\<lparr>s_notify_resent := e\<rparr>"]
  by (simp_all add: own_fields_def)

lemma close: "P s \<Longrightarrow> P (session_close s)"
  by (simp add: session_close_def sock_close)

lemma enter: "P s \<Longrightarrow> P (enter os p s)"
  using own_upds(3) [OF own_upds(1) [OF tick]] by (auto simp: enter_def Let_def case_prod_unfold)

lemma elapsed: "P s \<Longrightarrow> P (snd (elapsed_ms os s))"
  by (simp add: elapsed_ms_def Let_def case_prod_unfold tick)

lemma caps: "P s \<Longrightarrow> P (snd (send_caps os hook s))"
  by (simp add: send_caps_def emit packet_names_def)

lemma notify: "P s \<Longrightarrow> P (snd (send_notify os hook s))"
  by (simp add: send_notify_def Let_def case_prod_unfold emit elapsed packet_names_def)

lemmas sends = close enter elapsed caps notify

lemma fail: "P s \<Longrightarrow> P (snd (fail_closed o' s))"
  by (simp add: close)

lemma timeout: "P s \<Longrightarrow> P (snd (step_timeout os hook o' s))"
  by (simp add: step_timeout_def Let_def case_prod_unfold sends tick)

lemma resend: "P s \<Longrightarrow> P (snd (step_resend os hook o' s))"
  by (simp add: step_resend_def Let_def case_prod_unfold sends)

lemma battery: "P s \<Longrightarrow> P (snd (step_battery os o' s))"
  by (auto simp: step_battery_def Let_def case_prod_unfold tick split: option.split)

lemma transition: "P s \<Longrightarrow> P (snd (step_transition os hook o' s))"
  by (simp add: step_transition_def Let_def case_prod_unfold sends)

lemma read_step: "P s \<Longrightarrow> P (snd (step_read os hook tmo o' s))"
  by (simp add: step_read_def step_received_def Let_def case_prod_unfold read received battery transition close)

lemma step: "P s \<Longrightarrow> P (snd (session_step os hook tmo s))"
  by (simp add: session_step_def Let_def case_prod_unfold timeout resend read_step)

lemma reset: "P s \<Longrightarrow> P (open_reset os s)"
  by (simp add: open_reset_def Let_def case_prod_unfold enter tick)

lemma upfront: "P s \<Longrightarrow> P (snd (open_upfront os hook r s))"
  by (simp add: open_upfront_def Let_def case_prod_unfold sends sleep)

lemma opened: "P s \<Longrightarrow> P (snd (session_open os hook mac s))"
  by (simp add: session_open_def Let_def case_prod_unfold connect reset emit upfront close packet_names_def)

end

section \<open>A session leaks no descriptor\<close>

context packet_hook
begin

lemma fds_emit: "fds_balanced s \<Longrightarrow> fds_balanced (snd (emit os hook bs what s))"
  by (simp add: fds_balanced_def emit_trace)

lemma fds_hook: "fds_balanced s \<Longrightarrow> fds_balanced (call_hook hook d bs what s)"
  by (simp add: fds_balanced_def)

end

lemma fds_own [simp]: "fds_balanced (own_fields t s) = fds_balanced s" "fds_balanced (tick_ix s) = fds_balanced s"
  "fds_balanced (log_ev (SysSleep ms) s) = fds_balanced s"
  by (simp_all add: fds_balanced_def own_fields_def log_ev_def)

sublocale packet_hook \<subseteq> fds: session_monitor os hook fds_balanced for os
  by unfold_locales
    (simp_all add: fds_emit fds_hook fds_balanced_close fds_balanced_connect fds_balanced_read)

lemma fds_new_session: "fds_balanced (new_session c)"
  by (simp add: fds_balanced_def new_session_def)

section \<open>The start of the run clock\<close>

context packet_hook
begin

text \<open>Only opening sets the clock that \<open>elapsed_ms\<close> reads.\<close>

lemma started_close [simp]: "s_started (session_close s) = s_started s" "s_started (enter os p s) = s_started s"
  by (simp_all add: session_close_def enter_def now_def)

lemma started_step [simp]: "s_started (snd (session_step os hook tmo s)) = s_started s"
proof -
  have t: "s_started (snd (step_timeout os hook o' s)) = s_started s" for o' s
    by (simp add: step_timeout_def Let_def case_prod_unfold send_caps_def)
  have r: "s_started (snd (step_resend os hook o' s)) = s_started s" for o' s
    by (simp add: step_resend_def Let_def case_prod_unfold)
  have x: "s_started (snd (step_transition os hook o' s)) = s_started s" for o' s
    by (simp add: step_transition_def Let_def case_prod_unfold send_caps_def)
  have b: "s_started (snd (step_battery os o' s)) = s_started s" for o' s
    by (simp add: step_battery_def Let_def case_prod_unfold split: option.split)
  have d: "s_started (snd (step_read os hook tmo o' s)) = s_started s" for o' s
    by (simp add: step_read_def step_received_def Let_def case_prod_unfold x b)
  show ?thesis by (simp add: session_step_def Let_def case_prod_unfold t r d)
qed

end

end
