(* ===== verification/Pump.thy ===== *)
theory Pump
  imports Bluez_Watch Session_Monitor
begin

text \<open>
  The pump: \<open>daemon/src/pump.h\<close> and \<open>daemon/src/pump.cpp\<close>. It owns the session and the BlueZ
  watch, is driven by timeout sources and BlueZ signals, and hands snapshots to its publisher;
  \<open>p_out\<close> is what the publisher was given, in order. The lemmas show that a source is live
  exactly while its purpose holds, that the channel is open exactly while the tick is
  scheduled, that retries are bounded and never run while BlueZ says the pods are away, and
  what a snapshot says of the session.
\<close>

section \<open>State\<close>

record options =
  o_mac :: string
  o_tick_ms :: int
  o_verbose :: bool
  o_self_test :: bool

record pump =
  p_opts :: options
  p_session :: "session option"
  p_watch :: "watch option"
  p_timer_id :: nat
  p_retry_id :: nat
  p_attempts :: nat
  p_status :: string
  p_loop :: main_loop
  p_out :: "state list"

definition new_pump :: "options \<Rightarrow> pump" where
  "new_pump o' = \<lparr>p_opts = o', p_session = None, p_watch = None, p_timer_id = 0, p_retry_id = 0,
     p_attempts = 0, p_status = ''starting'', p_loop = \<lparr>l_added = 0, l_live = []\<rparr>, p_out = []\<rparr>"

definition kRetryMs :: "int list" where
  "kRetryMs = [1000, 2000, 4000]"

definition kMaxAttempts :: nat where
  "kMaxAttempts = length kRetryMs"

text \<open>The packet hook logs, and is installed only when verbose.\<close>

definition pump_hook :: "bool \<Rightarrow> unit hook" where
  "pump_hook verbose = (if verbose then Some (\<lambda>dir bs what s. s) else None)"

section \<open>Snapshots\<close>

definition view_of :: "battery_component \<Rightarrow> component_view" where
  "view_of c = \<lparr>cv_status = status_name (status c), cv_level = level c, cv_raw_level = raw_level c,
                cv_framing_anomaly = framing_anomaly c\<rparr>"

definition components_view :: "battery_component list \<Rightarrow> component_view smap" where
  "components_view cs = foldl (\<lambda>m c. smap_insert (component_name (component c)) (view_of c) m) [] cs"

definition snapshot :: "pump \<Rightarrow> state" where
  "snapshot p =
    (let s = default_state\<lparr>v_address := o_mac (p_opts p), v_status := p_status p\<rparr> in
     case p_session p of
       None \<Rightarrow> s
     | Some ss \<Rightarrow>
         let s = s\<lparr>v_phase := phase_name (s_phase ss), v_channel_open := is_open ss,
                   v_parse_refusals := s_refusals ss\<rparr> in
         case s_last_battery ss of
           None \<Rightarrow> s
         | Some b \<Rightarrow> s\<lparr>v_have_battery := True, v_components := components_view (components b)\<rparr>)"

definition publish_now :: "pump \<Rightarrow> pump" where
  "publish_now p = p\<lparr>p_out := p_out p @ [snapshot p]\<rparr>"

definition pump_battery_age_ms :: "os \<Rightarrow> pump \<Rightarrow> int" where
  "pump_battery_age_ms os p = (case p_session p of None \<Rightarrow> -1 | Some s \<Rightarrow> fst (battery_age_ms os s))"

section \<open>Attaching, retrying, detaching\<close>

definition add_source :: "(nat \<Rightarrow> nat) \<Rightarrow> source \<Rightarrow> pump \<Rightarrow> nat \<times> pump" where
  "add_source gid src p =
     (let (i, l) = timeout_add gid src (p_loop p) in (i, p\<lparr>p_loop := l\<rparr>))"

definition remove_source :: "nat \<Rightarrow> pump \<Rightarrow> pump" where
  "remove_source i p = p\<lparr>p_loop := source_remove i (p_loop p)\<rparr>"

definition schedule_retry :: "(nat \<Rightarrow> nat) \<Rightarrow> pump \<Rightarrow> pump" where
  "schedule_retry gid p =
    (case p_watch p of
       None \<Rightarrow> p
     | Some w \<Rightarrow>
         if \<not> bw_connected w then p
         else if kMaxAttempts \<le> p_attempts p then
           publish_now (p\<lparr>p_status := p_status p @ '' (gave up after '' @ fmt_u (p_attempts p) @ '' attempts)''\<rparr>)
         else let delay = kRetryMs ! (p_attempts p - 1);
                  (i, p) = add_source gid (RetryTimer delay) p
              in p\<lparr>p_retry_id := i\<rparr>)"

definition attach :: "os \<Rightarrow> (nat \<Rightarrow> nat) \<Rightarrow> pump \<Rightarrow> pump" where
  "attach os gid p =
    (case p_session p of
       None \<Rightarrow> p
     | Some s \<Rightarrow>
         if is_open s then p
         else let p = p\<lparr>p_attempts := Suc (p_attempts p)\<rparr>;
                  (r, s) = session_open os (pump_hook (o_verbose (p_opts p))) (o_mac (p_opts p)) s;
                  p = p\<lparr>p_session := Some s\<rparr> in
         if \<not> ok r then
           schedule_retry gid (publish_now (p\<lparr>p_status := stage_name (reached r) @ '': '' @ diagnosis r\<rparr>))
         else let p = publish_now (p\<lparr>p_status := ''channel open''\<rparr>);
                  p = (if p_timer_id p \<noteq> 0 then remove_source (p_timer_id p) p else p);
                  (i, p) = add_source gid (TickTimer (o_tick_ms (p_opts p))) p
              in p\<lparr>p_timer_id := i\<rparr>)"

definition detach :: "string \<Rightarrow> pump \<Rightarrow> pump" where
  "detach why p =
    (let p = (if p_timer_id p \<noteq> 0 then (remove_source (p_timer_id p) p)\<lparr>p_timer_id := 0\<rparr> else p);
         p = p\<lparr>p_session := map_option session_close (p_session p)\<rparr>
     in publish_now (p\<lparr>p_status := why\<rparr>))"

definition on_bluez :: "os \<Rightarrow> (nat \<Rightarrow> nat) \<Rightarrow> bool \<Rightarrow> string \<Rightarrow> pump \<Rightarrow> pump" where
  "on_bluez os gid connected path p =
    (let p = p\<lparr>p_attempts := 0\<rparr>;
         p = (if p_retry_id p \<noteq> 0 then (remove_source (p_retry_id p) p)\<lparr>p_retry_id := 0\<rparr> else p) in
     if connected then attach os gid p
     else if (case p_session p of Some s \<Rightarrow> is_open s | None \<Rightarrow> False)
     then detach ''pods left this machine'' p
     else publish_now (p\<lparr>p_status := (if path = '''' then ''pods not known to BlueZ''
                                        else ''waiting for the pods to connect to this machine'')\<rparr>))"

section \<open>The callbacks of the sources\<close>

text \<open>
  \<open>tick\<close> dereferences the session, which the invariant shows to exist whenever a tick source
  is live; its boolean says whether the source stays.
\<close>

definition tick :: "os \<Rightarrow> pump \<Rightarrow> bool \<times> pump" where
  "tick os p =
    (case p_session p of
       None \<Rightarrow> (True, p)
     | Some s \<Rightarrow>
         let (st, s) = session_step os (pump_hook (o_verbose (p_opts p))) 0 s;
             p = p\<lparr>p_session := Some s\<rparr> in
         if st_closed st then (False, detach ''channel closed by the peer'' (p\<lparr>p_timer_id := 0\<rparr>))
         else (True, if \<not> step_idle st then publish_now p else p))"

definition retry_trampoline :: "os \<Rightarrow> (nat \<Rightarrow> nat) \<Rightarrow> pump \<Rightarrow> bool \<times> pump" where
  "retry_trampoline os gid p = (False, attach os gid (p\<lparr>p_retry_id := 0\<rparr>))"

subsection \<open>The self test\<close>

definition self_test_base :: "options \<Rightarrow> state" where
  "self_test_base o' = default_state\<lparr>
     v_address := (if o_mac o' = '''' then ''00:00:00:00:00:00'' else o_mac o'),
     v_phase := ''listening'', v_channel_open := True,
     v_status := ''SELF TEST -- synthetic data, not a reading'', v_have_battery := True\<rparr>"

definition self_test_first :: "options \<Rightarrow> state" where
  "self_test_first o' = (self_test_base o')\<lparr>v_components :=
     smap_insert ''case'' \<lparr>cv_status = ''disconnected'', cv_level = None, cv_raw_level = 0xFF, cv_framing_anomaly = False\<rparr>
    (smap_insert ''right'' \<lparr>cv_status = ''charging'', cv_level = Some 94, cv_raw_level = 94, cv_framing_anomaly = False\<rparr>
    (smap_insert ''left'' \<lparr>cv_status = ''discharging'', cv_level = Some 96, cv_raw_level = 96, cv_framing_anomaly = False\<rparr> []))\<rparr>"

definition self_test_second :: "options \<Rightarrow> state" where
  "self_test_second o' = (self_test_base o')\<lparr>v_components :=
     smap_insert ''case'' \<lparr>cv_status = ''discharging'', cv_level = Some 72, cv_raw_level = 72, cv_framing_anomaly = False\<rparr>
    (smap_insert ''right'' \<lparr>cv_status = ''charging'', cv_level = Some 95, cv_raw_level = 95, cv_framing_anomaly = False\<rparr>
    (smap_insert ''left'' \<lparr>cv_status = ''discharging'', cv_level = Some 96, cv_raw_level = 96, cv_framing_anomaly = False\<rparr> []))\<rparr>"

definition run_self_test :: "(nat \<Rightarrow> nat) \<Rightarrow> pump \<Rightarrow> pump" where
  "run_self_test gid p =
    (let p = p\<lparr>p_out := p_out p @ [self_test_first (p_opts p)]\<rparr>;
         (i, p) = add_source gid (SelfTestTimer 1000) p
     in p\<lparr>p_timer_id := i\<rparr>)"

definition self_test_trampoline :: "pump \<Rightarrow> bool \<times> pump" where
  "self_test_trampoline p =
     (False, p\<lparr>p_out := p_out p @ [self_test_second (p_opts p)], p_timer_id := 0\<rparr>)"

section \<open>Signals and start\<close>

text \<open>A handler of the watch runs, and a report goes through the callback to \<open>on_bluez\<close>.\<close>

definition with_watch :: "os \<Rightarrow> (nat \<Rightarrow> nat) \<Rightarrow> (watch \<Rightarrow> watch \<times> report) \<Rightarrow> pump \<Rightarrow> pump" where
  "with_watch os gid f p =
    (case p_watch p of
       None \<Rightarrow> p
     | Some w \<Rightarrow>
         let (w, r) = f w; p = p\<lparr>p_watch := Some w\<rparr> in
         case r of None \<Rightarrow> p | Some (c, path) \<Rightarrow> on_bluez os gid c path p)"

definition pump_start :: "os \<Rightarrow> (nat \<Rightarrow> nat) \<Rightarrow> bool \<Rightarrow> managed option \<Rightarrow> pump \<Rightarrow> pump" where
  "pump_start os gid bus reply p =
    (if o_self_test (p_opts p) then run_self_test gid p
     else let p = p\<lparr>p_session := Some (new_session config_defaults)\<rparr>;
              p = p\<lparr>p_watch := Some (new_watch (o_mac (p_opts p)))\<rparr> in
     if \<not> fst (bw_start bus reply (new_watch (o_mac (p_opts p)))) then
       attach os gid (p\<lparr>p_watch := None, p_status := ''no BlueZ watch -- single connect attempt only''\<rparr>)
     else with_watch os gid (\<lambda>w. snd (bw_start bus reply w)) p)"

text \<open>
  What can happen once the daemon runs: a live source fires, or BlueZ signals. A source whose
  callback returns \<open>G_SOURCE_REMOVE\<close> is destroyed by the loop.
\<close>

datatype pump_event =
    Fire nat "managed option"
  | PropsChanged string "bool option"
  | InterfacesChanged
  | BluezAppeared "managed option"
  | BluezVanished

definition fire :: "os \<Rightarrow> (nat \<Rightarrow> nat) \<Rightarrow> source \<Rightarrow> managed option \<Rightarrow> pump \<Rightarrow> bool \<times> pump" where
  "fire os gid src reply p =
    (case src of
       TickTimer _ \<Rightarrow> tick os p
     | RetryTimer _ \<Rightarrow> retry_trampoline os gid p
     | SelfTestTimer _ \<Rightarrow> self_test_trampoline p
     | RescanTimer _ \<Rightarrow> (False, with_watch os gid (bw_rescan_trampoline reply) p))"

fun pump_handle :: "os \<Rightarrow> (nat \<Rightarrow> nat) \<Rightarrow> pump_event \<Rightarrow> pump \<Rightarrow> pump" where
  "pump_handle os gid (Fire i reply) p =
     (case map_of (l_live (p_loop p)) i of
        None \<Rightarrow> p
      | Some src \<Rightarrow>
          let (keep, p) = fire os gid src reply p in if keep then p else remove_source i p)"
| "pump_handle os gid (PropsChanged path c) p = with_watch os gid (bw_props_changed path c) p"
| "pump_handle os gid InterfacesChanged p =
     (case p_watch p of
        None \<Rightarrow> p
      | Some w \<Rightarrow> let (w, l) = bw_interfaces_changed gid w (p_loop p) in p\<lparr>p_watch := Some w, p_loop := l\<rparr>)"
| "pump_handle os gid (BluezAppeared reply) p = with_watch os gid (bw_appeared reply) p"
| "pump_handle os gid BluezVanished p = with_watch os gid bw_vanished p"

text \<open>Destruction: the body removes the tick, then the watch and the session are destroyed.\<close>

definition pump_destroy :: "pump \<Rightarrow> pump" where
  "pump_destroy p =
    (let p = (if p_timer_id p \<noteq> 0 then remove_source (p_timer_id p) p else p);
         p = (case p_watch p of None \<Rightarrow> p | Some w \<Rightarrow> p\<lparr>p_loop := bw_destroy w (p_loop p)\<rparr>)
     in p\<lparr>p_session := map_option session_close (p_session p)\<rparr>)"

interpretation logging_hook: packet_hook "pump_hook v" for v
proof
  fix h :: "direction \<Rightarrow> bytes \<Rightarrow> string option \<Rightarrow> session \<Rightarrow> session" and d bs what and s :: session
  assume "pump_hook v = Some h"
  then have "h = (\<lambda>dir bs what s. s)" by (auto simp: pump_hook_def split: if_splits)
  moreover have "s = s\<lparr>w_ix := w_ix s, session.more := session.more s\<rparr>" by simp
  ultimately show "\<exists>i m. h d bs what s = s\<lparr>w_ix := i, session.more := m\<rparr>" by metis
qed

section \<open>The pump's invariant\<close>

text \<open>Which field remembers the source of a kind.\<close>

definition owner :: "pump \<Rightarrow> source_kind \<Rightarrow> nat" where
  "owner p kd =
    (case kd of
       KTick \<Rightarrow> if o_self_test (p_opts p) then 0 else p_timer_id p
     | KSelfTest \<Rightarrow> if o_self_test (p_opts p) then p_timer_id p else 0
     | KRetry \<Rightarrow> p_retry_id p
     | KRescan \<Rightarrow> case p_watch p of None \<Rightarrow> 0 | Some w \<Rightarrow> bw_timer w)"

definition pump_wired :: "(nat \<Rightarrow> nat) \<Rightarrow> nat set \<Rightarrow> pump \<Rightarrow> bool" where
  "pump_wired gid X p \<longleftrightarrow> wired gid X (p_loop p) (owner p)"

text \<open>The tick is scheduled exactly while the channel is open.\<close>

definition channel_ok :: "pump \<Rightarrow> bool" where
  "channel_ok p \<longleftrightarrow> (\<exists>s k. p_session p = Some s \<and> session_inv k s \<and> (is_open s \<longleftrightarrow> p_timer_id p \<noteq> 0))"

text \<open>
  A retry is pending only while there is no channel, BlueZ reports the pods here, and the
  attempts are not used up.
\<close>

definition retry_ok :: "pump \<Rightarrow> bool" where
  "retry_ok p \<longleftrightarrow>
     (p_retry_id p \<noteq> 0 \<longrightarrow> p_timer_id p = 0 \<and> (\<exists>w. p_watch p = Some w \<and> bw_connected w)
                          \<and> 0 < p_attempts p \<and> p_attempts p < kMaxAttempts)
     \<and> p_attempts p \<le> kMaxAttempts"

definition pump_inv :: "(nat \<Rightarrow> nat) \<Rightarrow> nat set \<Rightarrow> pump \<Rightarrow> bool" where
  "pump_inv gid X p \<longleftrightarrow>
     \<not> o_self_test (p_opts p) \<and> pump_wired gid X p \<and> channel_ok p \<and> retry_ok p"

lemma kMaxAttempts_3 [simp]: "kMaxAttempts = 3"
  by (simp add: kMaxAttempts_def kRetryMs_def)

lemma owner_other [simp]:
  "owner (p\<lparr>p_session := x\<rparr>) = owner p" "owner (p\<lparr>p_attempts := n\<rparr>) = owner p"
  "owner (p\<lparr>p_status := t\<rparr>) = owner p" "owner (p\<lparr>p_loop := l\<rparr>) = owner p"
  "owner (p\<lparr>p_out := v\<rparr>) = owner p"
  by (simp_all add: owner_def fun_eq_iff split: source_kind.split option.split)

lemma owner_timer: "\<not> o_self_test (p_opts p) \<Longrightarrow> owner (p\<lparr>p_timer_id := i\<rparr>) = (owner p)(KTick := i)"
  by (auto simp: owner_def fun_eq_iff split: source_kind.splits)

lemma owner_retry: "owner (p\<lparr>p_retry_id := i\<rparr>) = (owner p)(KRetry := i)"
  by (auto simp: owner_def fun_eq_iff split: source_kind.splits)

lemma owner_watch: "owner (p\<lparr>p_watch := Some w\<rparr>) = (owner p)(KRescan := bw_timer w)"
  by (auto simp: owner_def fun_eq_iff split: source_kind.splits)

lemma owner_at [simp]:
  "\<not> o_self_test (p_opts p) \<Longrightarrow> owner p KTick = p_timer_id p" "owner p KRetry = p_retry_id p"
  by (simp_all add: owner_def)

lemma pump_wired_other [simp]:
  "pump_wired gid X (p\<lparr>p_session := x\<rparr>) = pump_wired gid X p"
  "pump_wired gid X (p\<lparr>p_attempts := n\<rparr>) = pump_wired gid X p"
  "pump_wired gid X (p\<lparr>p_status := t\<rparr>) = pump_wired gid X p"
  "pump_wired gid X (p\<lparr>p_out := v\<rparr>) = pump_wired gid X p"
  by (simp_all add: pump_wired_def)

lemma publish_now_sels [simp]:
  "p_opts (publish_now p) = p_opts p" "p_session (publish_now p) = p_session p"
  "p_watch (publish_now p) = p_watch p" "p_timer_id (publish_now p) = p_timer_id p"
  "p_retry_id (publish_now p) = p_retry_id p" "p_attempts (publish_now p) = p_attempts p"
  "p_status (publish_now p) = p_status p" "p_loop (publish_now p) = p_loop p"
  "pump_wired gid X (publish_now p) = pump_wired gid X p"
  "p_out (publish_now p) = p_out p @ [snapshot p]"
  by (simp_all add: publish_now_def)

lemma add_source_eq:
  "add_source gid src p = (gid (l_added (p_loop p)), p\<lparr>p_loop := snd (timeout_add gid src (p_loop p))\<rparr>)"
  by (simp add: add_source_def case_prod_unfold Let_def)

lemma pump_wired_tick_added:
  "glib_ids gid \<Longrightarrow> pump_wired gid X p \<Longrightarrow> \<not> o_self_test (p_opts p) \<Longrightarrow> p_timer_id p = 0 \<Longrightarrow>
   pump_wired gid X (p\<lparr>p_loop := snd (timeout_add gid (TickTimer ms) (p_loop p)),
                      p_timer_id := gid (l_added (p_loop p))\<rparr>)"
  using wired_add [of gid X "p_loop p" "owner p" "TickTimer ms"]
  by (simp add: pump_wired_def owner_timer)

lemma pump_wired_retry_added:
  "glib_ids gid \<Longrightarrow> pump_wired gid X p \<Longrightarrow> p_retry_id p = 0 \<Longrightarrow>
   pump_wired gid X (p\<lparr>p_loop := snd (timeout_add gid (RetryTimer ms) (p_loop p)),
                      p_retry_id := gid (l_added (p_loop p))\<rparr>)"
  using wired_add [of gid X "p_loop p" "owner p" "RetryTimer ms"]
  by (simp add: pump_wired_def owner_retry)

lemma pump_wired_tick_removed:
  "pump_wired gid X p \<Longrightarrow> \<not> o_self_test (p_opts p) \<Longrightarrow> p_timer_id p \<noteq> 0 \<Longrightarrow>
   pump_wired gid X ((remove_source (p_timer_id p) p)\<lparr>p_timer_id := 0\<rparr>)"
  using wired_remove [of gid X "p_loop p" "owner p" KTick]
  by (simp add: pump_wired_def owner_timer remove_source_def)

lemma pump_wired_retry_removed:
  "pump_wired gid X p \<Longrightarrow> p_retry_id p \<noteq> 0 \<Longrightarrow>
   pump_wired gid X ((remove_source (p_retry_id p) p)\<lparr>p_retry_id := 0\<rparr>)"
  using wired_remove [of gid X "p_loop p" "owner p" KRetry]
  by (simp add: pump_wired_def owner_retry remove_source_def)

lemma schedule_retry_inv:
  assumes g: "glib_ids gid" and w: "pump_wired gid X p" and c: "channel_ok p"
    and st: "\<not> o_self_test (p_opts p)" and r: "p_retry_id p = 0" and t: "p_timer_id p = 0"
    and a: "0 < p_attempts p" "p_attempts p \<le> kMaxAttempts"
  shows "pump_inv gid X (schedule_retry gid p)"
  using assms pump_wired_retry_added [OF g w r]
  by (auto simp: schedule_retry_def pump_inv_def retry_ok_def channel_ok_def add_source_eq
      glib_ids_def split: option.splits)

lemma session_inv_closedD:
  "session_inv k s \<Longrightarrow> \<not> is_open s \<Longrightarrow> s_phase s = Closed"
  by (simp add: session_inv_def)

lemma attach_inv:
  assumes g: "glib_ids gid" and w: "pump_wired gid X p" and c: "channel_ok p"
    and st: "\<not> o_self_test (p_opts p)" and r: "p_retry_id p = 0"
    and a: "p_attempts p < kMaxAttempts"
  shows "pump_inv gid X (attach os gid p)"
proof -
  obtain s k where s: "p_session p = Some s" "session_inv k s" "is_open s \<longleftrightarrow> p_timer_id p \<noteq> 0"
    using c by (auto simp: channel_ok_def)
  show ?thesis
  proof (cases "is_open s")
    case True
    with s assms show ?thesis by (auto simp: attach_def pump_inv_def retry_ok_def)
  next
    case False
    define o1 where "o1 = session_open os (pump_hook (o_verbose (p_opts p))) (o_mac (p_opts p)) s"
    have cl: "s_phase s = Closed" using session_inv_closedD [OF s(2) False] .
    have o1: "session_inv (length (w_trace s)) (snd o1)" "ok (fst o1) = is_open (snd o1)"
      unfolding o1_def using logging_hook.session_open_ok [OF False cl] by blast+
    have t: "p_timer_id p = 0" using s(3) False by simp
    show ?thesis
    proof (cases "ok (fst o1)")
      case no: False
      define p1 where "p1 = publish_now (p\<lparr>p_attempts := Suc (p_attempts p), p_session := Some (snd o1),
          p_status := stage_name (reached (fst o1)) @ '': '' @ diagnosis (fst o1)\<rparr>)"
      have "attach os gid p = schedule_retry gid p1"
        using s False no by (simp add: attach_def case_prod_unfold Let_def o1_def p1_def)
      moreover have "pump_inv gid X (schedule_retry gid p1)"
        using g w st r a t o1 no by (intro schedule_retry_inv) (auto simp: p1_def channel_ok_def)
      ultimately show ?thesis by simp
    next
      case yes: True
      define p1 where "p1 = publish_now (p\<lparr>p_attempts := Suc (p_attempts p), p_session := Some (snd o1),
          p_status := ''channel open''\<rparr>)"
      have w1: "pump_wired gid X p1" "p_timer_id p1 = 0" "\<not> o_self_test (p_opts p1)"
        using w t st by (simp_all add: p1_def)
      have "attach os gid p = p1\<lparr>p_loop := snd (timeout_add gid (TickTimer (o_tick_ms (p_opts p))) (p_loop p1)),
          p_timer_id := gid (l_added (p_loop p1))\<rparr>"
        using s False yes t by (simp add: attach_def case_prod_unfold Let_def o1_def p1_def add_source_eq)
      moreover have "gid n \<noteq> 0" for n using g by (simp add: glib_ids_def)
      ultimately show ?thesis
        using pump_wired_tick_added [OF g w1(1,3,2)] w1 r a o1 yes
        by (auto simp: pump_inv_def retry_ok_def channel_ok_def) (auto simp: p1_def)
    qed
  qed
qed

lemma pump_inv_retryD:
  "pump_inv gid X p \<Longrightarrow> p_retry_id p \<noteq> 0 \<Longrightarrow> p_timer_id p = 0 \<and> 0 < p_attempts p \<and> p_attempts p < kMaxAttempts"
  by (simp add: pump_inv_def retry_ok_def)

text \<open>Detaching closes the session, whatever the timer was.\<close>

lemma detach_inv:
  assumes w: "pump_wired gid X p" and st: "\<not> o_self_test (p_opts p)"
    and s: "p_session p = Some s" "session_inv k s"
    and r: "p_retry_id p = 0" "p_attempts p \<le> kMaxAttempts"
  shows "pump_inv gid X (detach why p)"
proof -
  define p1 where "p1 = (if p_timer_id p \<noteq> 0 then (remove_source (p_timer_id p) p)\<lparr>p_timer_id := 0\<rparr> else p)"
  have p1: "p_session p1 = Some s" "p_timer_id p1 = 0" "p_retry_id p1 = 0" "p_opts p1 = p_opts p"
    "p_attempts p1 = p_attempts p"
    using s r by (simp_all add: p1_def remove_source_def)
  have w1: "pump_wired gid X p1" using pump_wired_tick_removed [OF w st] w by (simp add: p1_def)
  have "session_inv k (session_close s)" using session_inv_close [OF s(2)] .
  moreover have "detach why p = publish_now (p1\<lparr>p_session := Some (session_close s), p_status := why\<rparr>)"
    using p1(1) unfolding detach_def p1_def Let_def by (simp del: publish_now_sels)
  ultimately show ?thesis
    using p1 w1 st r by (auto simp: pump_inv_def channel_ok_def retry_ok_def)
qed

lemma on_bluez_inv:
  assumes g: "glib_ids gid" and w: "pump_wired gid X p" and c: "channel_ok p"
    and st: "\<not> o_self_test (p_opts p)"
  shows "pump_inv gid X (on_bluez os gid connected path p)"
proof -
  define p1 where "p1 = (let p = p\<lparr>p_attempts := 0\<rparr> in
      if p_retry_id p \<noteq> 0 then (remove_source (p_retry_id p) p)\<lparr>p_retry_id := 0\<rparr> else p)"
  have p1: "p_session p1 = p_session p" "p_timer_id p1 = p_timer_id p" "p_retry_id p1 = 0"
    "p_opts p1 = p_opts p" "p_attempts p1 = 0"
    by (simp_all add: p1_def Let_def remove_source_def)
  have w1: "pump_wired gid X p1"
    using pump_wired_retry_removed [of gid X "p\<lparr>p_attempts := 0\<rparr>"] w by (simp add: p1_def Let_def)
  have c1: "channel_ok p1" using c p1 by (simp add: channel_ok_def)
  obtain s k where s: "p_session p1 = Some s" "session_inv k s" using c1 by (auto simp: channel_ok_def)
  have a: "pump_inv gid X (attach os gid p1)"
    using attach_inv [OF g w1 c1] p1 st by simp
  have d: "pump_inv gid X (detach why p1)" for why
    using detach_inv [OF w1 _ s] p1 st by simp
  have e: "pump_inv gid X (publish_now (p1\<lparr>p_status := t\<rparr>))" for t
    using w1 c1 p1 st by (auto simp: pump_inv_def channel_ok_def retry_ok_def)
  have "on_bluez os gid connected path p =
      (if connected then attach os gid p1
       else if is_open s then detach ''pods left this machine'' p1
       else publish_now (p1\<lparr>p_status := (if path = '''' then ''pods not known to BlueZ''
              else ''waiting for the pods to connect to this machine'')\<rparr>))"
    using s(1) unfolding on_bluez_def p1_def [symmetric] Let_def
    by (simp add: p1_def Let_def)
  then show ?thesis using a d e by simp
qed

text \<open>A watch handler keeps the invariant: a report resets the retries, and no report means
  that what the retries rest on has not changed.\<close>

lemma with_watch_inv:
  assumes g: "glib_ids gid" and i: "channel_ok p" "retry_ok p" "\<not> o_self_test (p_opts p)"
    and w: "\<And>w. p_watch p = Some w \<Longrightarrow> pump_wired gid X (p\<lparr>p_watch := Some (fst (f w))\<rparr>)"
    and n: "p_watch p = None \<Longrightarrow> pump_wired gid X p"
    and same: "\<And>w. snd (f w) = None \<Longrightarrow> bw_view (fst (f w)) = bw_view w"
  shows "pump_inv gid X (with_watch os gid f p)"
proof (cases "p_watch p")
  case None
  with i n show ?thesis by (simp add: with_watch_def pump_inv_def)
next
  case (Some w0)
  define p1 where "p1 = p\<lparr>p_watch := Some (fst (f w0))\<rparr>"
  have p1: "pump_wired gid X p1" "channel_ok p1" "\<not> o_self_test (p_opts p1)"
    using w [OF Some] i by (simp_all add: p1_def channel_ok_def)
  have "with_watch os gid f p =
      (case snd (f w0) of None \<Rightarrow> p1 | Some (c, path) \<Rightarrow> on_bluez os gid c path p1)"
    using Some by (auto simp: with_watch_def case_prod_unfold Let_def p1_def split: option.split)
  moreover have "pump_inv gid X p1" if "snd (f w0) = None"
    using same [OF that] p1 i(2) Some by (auto simp: pump_inv_def retry_ok_def p1_def bw_view_def)
  ultimately show ?thesis
    using on_bluez_inv [OF g p1] by (auto split: option.split)
qed

lemma pump_wired_watch [simp]:
  "p_watch p = Some w \<Longrightarrow> bw_timer w' = bw_timer w \<Longrightarrow>
   pump_wired gid X (p\<lparr>p_watch := Some w'\<rparr>) = pump_wired gid X p"
proof -
  assume "p_watch p = Some w" "bw_timer w' = bw_timer w"
  then have "owner (p\<lparr>p_watch := Some w'\<rparr>) = owner p"
    by (auto simp: owner_watch owner_def fun_eq_iff split: source_kind.splits)
  then show ?thesis by (simp add: pump_wired_def)
qed

section \<open>Events keep the invariant\<close>

lemma pump_wired_forget_timer:
  "pump_wired gid {} p \<Longrightarrow> (p_timer_id p, TickTimer ms) \<in> set (l_live (p_loop p)) \<Longrightarrow> p_timer_id p \<noteq> 0 \<Longrightarrow>
   \<not> o_self_test (p_opts p) \<Longrightarrow> pump_wired gid {p_timer_id p} (p\<lparr>p_timer_id := 0\<rparr>)"
  using wired_dispatch [of gid "p_loop p" "owner p" "p_timer_id p" "TickTimer ms"]
  by (simp add: pump_wired_def owner_timer)

lemma pump_wired_forget_retry:
  "pump_wired gid {} p \<Longrightarrow> (p_retry_id p, RetryTimer ms) \<in> set (l_live (p_loop p)) \<Longrightarrow> p_retry_id p \<noteq> 0 \<Longrightarrow>
   pump_wired gid {p_retry_id p} (p\<lparr>p_retry_id := 0\<rparr>)"
  using wired_dispatch [of gid "p_loop p" "owner p" "p_retry_id p" "RetryTimer ms"]
  by (simp add: pump_wired_def owner_retry)

lemma pump_wired_forget_rescan:
  "pump_wired gid {} p \<Longrightarrow> (bw_timer w, RescanTimer ms) \<in> set (l_live (p_loop p)) \<Longrightarrow> bw_timer w \<noteq> 0 \<Longrightarrow>
   bw_timer w' = 0 \<Longrightarrow> pump_wired gid {bw_timer w} (p\<lparr>p_watch := Some w'\<rparr>)"
  using wired_dispatch [of gid "p_loop p" "owner p" "bw_timer w" "RescanTimer ms"]
  by (simp add: pump_wired_def owner_watch)

lemma pump_inv_done:
  "pump_inv gid {i} p \<Longrightarrow> pump_inv gid {} (remove_source i p)"
proof -
  assume i: "pump_inv gid {i} p"
  have "owner (remove_source i p) = owner p" by (simp add: remove_source_def)
  then have "pump_wired gid {} (remove_source i p)"
    using i wired_done by (auto simp: pump_inv_def pump_wired_def remove_source_def)
  then show ?thesis using i by (simp add: pump_inv_def remove_source_def channel_ok_def retry_ok_def)
qed

lemma live_is_owned:
  "glib_ids gid \<Longrightarrow> pump_wired gid {} p \<Longrightarrow> (i, src) \<in> set (l_live (p_loop p)) \<Longrightarrow>
   owner p (kind_of src) = i \<and> i \<noteq> 0"
  unfolding pump_wired_def by (rule wired_live_is_owned)

text \<open>What a tick does, in the two cases of the step it takes.\<close>

lemma tick_cases:
  assumes "p_session p = Some s" and "session_step os (pump_hook (o_verbose (p_opts p))) 0 s = (st, s')"
  shows "tick os p =
    (if st_closed st then (False, detach ''channel closed by the peer'' (p\<lparr>p_session := Some s', p_timer_id := 0\<rparr>))
     else (True, if step_idle st then p\<lparr>p_session := Some s'\<rparr> else publish_now (p\<lparr>p_session := Some s'\<rparr>)))"
  using assms by (simp add: tick_def)

lemma tick_inv:
  assumes inv: "pump_inv gid {} p" and live: "(p_timer_id p, TickTimer ms) \<in> set (l_live (p_loop p))"
    and t: "p_timer_id p \<noteq> 0"
  shows "pump_inv gid (if fst (tick os p) then {} else {p_timer_id p}) (snd (tick os p))"
proof -
  have i: "\<not> o_self_test (p_opts p)" "pump_wired gid {} p" "channel_ok p" "retry_ok p"
    using inv by (simp_all add: pump_inv_def)
  obtain s k where s: "p_session p = Some s" "session_inv k s" "is_open s"
    using i(3) t by (auto simp: channel_ok_def)
  obtain st s' where x: "session_step os (pump_hook (o_verbose (p_opts p))) 0 s = (st, s')" by fastforce
  have s': "session_inv k s'" "st_closed st = (\<not> is_open s')"
    using logging_hook.session_step_ok [OF s(2), of os "o_verbose (p_opts p)" 0] x by auto
  have r: "p_retry_id p = 0" "p_attempts p \<le> kMaxAttempts"
    using i(4) t by (auto simp: retry_ok_def)
  show ?thesis
  proof (cases "st_closed st")
    case True
    have "pump_wired gid {p_timer_id p} (p\<lparr>p_session := Some s', p_timer_id := 0\<rparr>)"
      using pump_wired_forget_timer [of gid "p\<lparr>p_session := Some s'\<rparr>"] i live t by simp
    from detach_inv [OF this _ _ s'(1)] i(1) r
    show ?thesis using True tick_cases [OF s(1) x] by simp
  next
    case False
    with s' have "channel_ok (p\<lparr>p_session := Some s'\<rparr>)" using t by (auto simp: channel_ok_def)
    then show ?thesis
      using False tick_cases [OF s(1) x] i by (auto simp: pump_inv_def channel_ok_def retry_ok_def)
  qed
qed

lemma retry_trampoline_inv:
  assumes g: "glib_ids gid" and inv: "pump_inv gid {} p"
    and live: "(p_retry_id p, RetryTimer ms) \<in> set (l_live (p_loop p))" and r: "p_retry_id p \<noteq> 0"
  shows "pump_inv gid {p_retry_id p} (snd (retry_trampoline os gid p))"
proof -
  have i: "\<not> o_self_test (p_opts p)" "pump_wired gid {} p" "channel_ok p" "retry_ok p"
    using inv by (simp_all add: pump_inv_def)
  have "channel_ok (p\<lparr>p_retry_id := 0\<rparr>)" using i(3) by (simp add: channel_ok_def)
  moreover have "p_attempts p < kMaxAttempts" using pump_inv_retryD [OF inv r] by blast
  ultimately show ?thesis
    unfolding retry_trampoline_def snd_conv
    using pump_wired_forget_retry [OF i(2) live r] i(1) by (intro attach_inv [OF g]) simp_all
qed

lemma rescan_fire_inv:
  assumes g: "glib_ids gid" and inv: "pump_inv gid {} p"
    and live: "(i, RescanTimer ms) \<in> set (l_live (p_loop p))"
  shows "pump_inv gid {i} (with_watch os gid (bw_rescan_trampoline reply) p)"
proof -
  have p: "\<not> o_self_test (p_opts p)" "pump_wired gid {} p" "channel_ok p" "retry_ok p"
    using inv by (simp_all add: pump_inv_def)
  have own: "owner p KRescan = i" "i \<noteq> 0" using live_is_owned [OF g p(2) live] by simp_all
  then obtain w where w: "p_watch p = Some w" "bw_timer w = i"
    by (auto simp: owner_def split: option.splits)
  have "pump_wired gid {i} (p\<lparr>p_watch := Some (fst (bw_rescan_trampoline reply w))\<rparr>)"
    using pump_wired_forget_rescan [OF p(2), of w ms] live own w by (simp add: bw_rescan_trampoline_def)
  moreover have "bw_view (fst (bw_rescan_trampoline reply w)) = bw_view w"
    if "snd (bw_rescan_trampoline reply w) = None" for w
    using bw_no_report_same_view(1) [of reply "w\<lparr>bw_timer := 0\<rparr>"] that
    by (simp add: bw_rescan_trampoline_def bw_view_def)
  ultimately show ?thesis
    using w p by (intro with_watch_inv [OF g]) auto
qed

lemma signal_inv:
  assumes g: "glib_ids gid" and inv: "pump_inv gid {} p"
    and timer: "\<And>w. bw_timer (fst (f w)) = bw_timer w"
    and same: "\<And>w. snd (f w) = None \<Longrightarrow> bw_view (fst (f w)) = bw_view w"
  shows "pump_inv gid {} (with_watch os gid f p)"
  using inv timer same by (intro with_watch_inv [OF g]) (auto simp: pump_inv_def)

lemma bw_vanished_timer: "bw_timer (fst (bw_vanished w)) = bw_timer w"
  by (simp add: bw_vanished_def)

lemma interfaces_changed_inv:
  assumes g: "glib_ids gid" and inv: "pump_inv gid {} p"
  shows "pump_inv gid {} (pump_handle os gid InterfacesChanged p)"
proof (cases "p_watch p")
  case None
  with inv show ?thesis by simp
next
  case (Some w)
  define l where "l = (if bw_timer w \<noteq> 0 then source_remove (bw_timer w) (p_loop p) else p_loop p)"
  have own: "owner p KRescan = bw_timer w" using Some by (simp add: owner_def)
  have "wired gid {} (p_loop p) (owner p)" using inv by (simp add: pump_inv_def pump_wired_def)
  then have "wired gid {} l ((owner p)(KRescan := 0))"
    using wired_remove [of gid "{}" "p_loop p" "owner p" KRescan] own
    by (cases "bw_timer w = 0") (simp_all add: l_def fun_upd_idem)
  from wired_add [OF g this, of "RescanTimer kRescanDebounceMs"]
  have "wired gid {} (snd (timeout_add gid (RescanTimer kRescanDebounceMs) l))
      ((owner p)(KRescan := gid (l_added l)))" by simp
  then show ?thesis
    using inv Some
    by (simp add: bw_interfaces_changed_def bw_rescan_soon_def case_prod_unfold Let_def l_def
        pump_inv_def pump_wired_def owner_watch channel_ok_def retry_ok_def)
qed

text \<open>The dispatch of one source, as the invariant sees it.\<close>

lemma fire_inv:
  assumes g: "glib_ids gid" and inv: "pump_inv gid {} p" and live: "(i, src) \<in> set (l_live (p_loop p))"
  shows "pump_inv gid (if fst (fire os gid src reply p) then {} else {i}) (snd (fire os gid src reply p))"
proof -
  have w: "pump_wired gid {} p" "\<not> o_self_test (p_opts p)" using inv by (simp_all add: pump_inv_def)
  have own: "owner p (kind_of src) = i" "i \<noteq> 0" using live_is_owned [OF g w(1) live] by simp_all
  show ?thesis
  proof (cases src)
    case (TickTimer ms)
    then have "p_timer_id p = i" using own w by simp
    with TickTimer own live tick_inv [OF inv, of ms os] show ?thesis
      by (auto simp: fire_def split: if_splits)
  next
    case (RetryTimer ms)
    with own live retry_trampoline_inv [OF g inv, of ms os] show ?thesis
      by (simp add: fire_def retry_trampoline_def)
  next
    case (SelfTestTimer ms)
    with own w show ?thesis by (simp add: owner_def)
  next
    case (RescanTimer ms)
    with live rescan_fire_inv [OF g inv, of i ms os reply] show ?thesis by (simp add: fire_def)
  qed
qed

lemma pump_handle_inv:
  assumes g: "glib_ids gid" and inv: "pump_inv gid {} p"
  shows "pump_inv gid {} (pump_handle os gid e p)"
proof (cases e)
  case (Fire i reply)
  show ?thesis
  proof (cases "map_of (l_live (p_loop p)) i")
    case None
    with Fire inv show ?thesis by simp
  next
    case (Some src)
    then have live: "(i, src) \<in> set (l_live (p_loop p))" by (rule map_of_SomeD)
    from fire_inv [OF g inv this, of os reply] Fire Some pump_inv_done show ?thesis
      by (auto simp: case_prod_unfold Let_def split: if_splits)
  qed
next
  case (PropsChanged path c)
  then show ?thesis
    using signal_inv [OF g inv, of "bw_props_changed path c"] bw_no_report_same_view(2) by simp
next
  case InterfacesChanged
  then show ?thesis using interfaces_changed_inv [OF g inv] by simp
next
  case (BluezAppeared reply)
  then show ?thesis
    using signal_inv [OF g inv, of "bw_appeared reply"] bw_no_report_same_view(1) by (simp add: bw_appeared_def)
next
  case BluezVanished
  then show ?thesis
    using signal_inv [OF g inv, of bw_vanished] bw_vanished_timer bw_no_report_same_view(3) by simp
qed

text \<open>The events of a run are handled one after another; the invariant is kept by each.\<close>

interpretation pump_events: event_handler "pump_handle os gid" "\<lambda>p. glib_ids gid \<and> pump_inv gid {} p" for os gid
  by unfold_locales (auto intro: pump_handle_inv)


definition pump_run :: "os \<Rightarrow> (nat \<Rightarrow> nat) \<Rightarrow> pump_event list \<Rightarrow> pump \<Rightarrow> pump" where
  "pump_run os gid es p = fold (pump_handle os gid) es p"

lemma pump_run_inv:
  "glib_ids gid \<Longrightarrow> pump_inv gid {} p \<Longrightarrow> pump_inv gid {} (pump_run os gid es p)"
  using pump_events.fold_inv [of gid p os es] by (simp add: pump_run_def)

section \<open>Starting\<close>

lemma new_session_inv: "session_inv 0 (new_session c)" "\<not> is_open (new_session c)"
  by (simp_all add: session_inv_def new_session_def is_open_def progress_def since_def script_def)

lemma new_pump_started:
  assumes "\<not> o_self_test os'"
  shows "pump_inv gid {} (new_pump os'\<lparr>p_session := Some (new_session config_defaults)\<rparr>)"
proof -
  have "owner (new_pump os'\<lparr>p_session := Some (new_session config_defaults)\<rparr>) kd = 0" for kd
    by (simp add: owner_def new_pump_def split: source_kind.split)
  then show ?thesis
    using assms new_session_inv [of config_defaults]
    by (auto simp: pump_inv_def pump_wired_def channel_ok_def retry_ok_def wired_def loop_ok_def new_pump_def)
qed

lemma bw_start_keeps:
  "bw_timer (fst (snd (bw_start bus reply w))) = bw_timer w"
  "snd (snd (bw_start bus reply w)) = None \<Longrightarrow> bw_view (fst (snd (bw_start bus reply w))) = bw_view w"
  "fst (bw_start bus reply w) = bus"
  using bw_no_report_same_view(1) [of reply "w\<lparr>bw_sys := True\<rparr>"]
  by (auto simp: bw_start_def case_prod_unfold Let_def bw_view_def)

lemma pump_start_inv:
  assumes g: "glib_ids gid" and st: "\<not> o_self_test os'"
  shows "pump_inv gid {} (pump_start os gid bus reply (new_pump os'))"
proof -
  define p0 where "p0 = new_pump os'\<lparr>p_session := Some (new_session config_defaults)\<rparr>"
  have i: "pump_wired gid {} p0" "channel_ok p0" "retry_ok p0" "\<not> o_self_test (p_opts p0)"
    "p_attempts p0 = 0" "p_retry_id p0 = 0" "p_watch p0 = None" "p_opts p0 = os'"
    using new_pump_started [OF st, of gid] by (simp_all add: p0_def pump_inv_def) (simp_all add: new_pump_def)
  show ?thesis
  proof (cases bus)
    case False
    have "pump_start os gid bus reply (new_pump os') =
        attach os gid (p0\<lparr>p_watch := None, p_status := ''no BlueZ watch -- single connect attempt only''\<rparr>)"
      using False st by (simp add: pump_start_def bw_start_keeps p0_def new_pump_def)
    moreover have "p0\<lparr>p_watch := None\<rparr> = p0" using i(7) by simp
    ultimately show ?thesis
      using attach_inv [OF g, of "{}" "p0\<lparr>p_status := ''no BlueZ watch -- single connect attempt only''\<rparr>" os] i
      by (simp add: channel_ok_def)
  next
    case True
    define p1 where "p1 = p0\<lparr>p_watch := Some (new_watch (o_mac os'))\<rparr>"
    have t: "bw_timer (new_watch (o_mac os')) = 0" by (simp add: new_watch_def)
    have "owner p1 = owner p0"
      using i(7) t by (auto simp: p1_def owner_watch owner_def fun_eq_iff split: source_kind.splits)
    then have w1: "pump_wired gid {} p1" using i(1) by (simp add: pump_wired_def p1_def)
    have "pump_start os gid bus reply (new_pump os') = with_watch os gid (\<lambda>w. snd (bw_start bus reply w)) p1"
      using True st by (simp add: pump_start_def bw_start_keeps p1_def p0_def new_pump_def)
    moreover have "pump_inv gid {} p1" using w1 i by (simp add: pump_inv_def p1_def channel_ok_def retry_ok_def)
    ultimately show ?thesis using signal_inv [OF g, of p1 "\<lambda>w. snd (bw_start bus reply w)"] bw_start_keeps by simp
  qed
qed

section \<open>Reachable states\<close>

text \<open>
  The daemon as a transition system: it starts, and then one event after another happens.
\<close>

inductive pump_reachable ::
    "os \<Rightarrow> (nat \<Rightarrow> nat) \<Rightarrow> options \<Rightarrow> pump \<Rightarrow> bool" for os gid op where
  started: "pump_reachable os gid op (pump_start os gid bus reply (new_pump op))"
| handled: "pump_reachable os gid op p \<Longrightarrow> pump_reachable os gid op (pump_handle os gid e p)"

lemma pump_reachable_inv:
  "pump_reachable os gid op p \<Longrightarrow> glib_ids gid \<Longrightarrow> \<not> o_self_test op \<Longrightarrow> pump_inv gid {} p"
  by (induction rule: pump_reachable.induct) (simp_all add: pump_start_inv pump_handle_inv)

lemma pump_reachable_run:
  "pump_reachable os gid op (pump_run os gid es (pump_start os gid bus reply (new_pump op)))"
  unfolding pump_run_def
  by (induction es rule: rev_induct) (auto intro: pump_reachable.intros)

section \<open>What is published\<close>

text \<open>
  \<open>current\<close>: the publisher was last given the present snapshot. \<open>current_or p\<close> is the weaker
  form for a pump that has published nothing yet.
\<close>

definition current :: "pump \<Rightarrow> bool" where
  "current p \<longleftrightarrow> p_out p \<noteq> [] \<and> last (p_out p) = snapshot p"

lemma snapshot_other [simp]:
  "snapshot (p\<lparr>p_loop := l\<rparr>) = snapshot p" "snapshot (p\<lparr>p_timer_id := i\<rparr>) = snapshot p"
  "snapshot (p\<lparr>p_retry_id := i\<rparr>) = snapshot p" "snapshot (p\<lparr>p_attempts := n\<rparr>) = snapshot p"
  "snapshot (p\<lparr>p_watch := w\<rparr>) = snapshot p" "snapshot (p\<lparr>p_out := x\<rparr>) = snapshot p"
  by (simp_all add: snapshot_def)

lemma current_other [simp]:
  "current (p\<lparr>p_loop := l\<rparr>) = current p" "current (p\<lparr>p_timer_id := i\<rparr>) = current p"
  "current (p\<lparr>p_retry_id := i\<rparr>) = current p" "current (p\<lparr>p_attempts := n\<rparr>) = current p"
  "current (p\<lparr>p_watch := w\<rparr>) = current p" "current (remove_source i p) = current p"
  by (simp_all add: current_def remove_source_def)

lemma current_publish [simp]: "current (publish_now p)"
  by (simp add: current_def publish_now_def)

lemma current_schedule_retry: "current p \<Longrightarrow> current (schedule_retry gid p)"
  by (auto simp: schedule_retry_def add_source_eq split: option.split)

lemma current_attach: "current p \<or> (\<exists>s. p_session p = Some s \<and> \<not> is_open s) \<Longrightarrow> current (attach os gid p)"
  by (auto simp: attach_def add_source_eq case_prod_unfold Let_def current_schedule_retry split: option.split)

lemma current_detach [simp]: "current (detach why p)"
  by (simp add: detach_def Let_def)

lemma current_on_bluez: "current p \<or> (\<exists>s. p_session p = Some s \<and> \<not> is_open s) \<or> \<not> c \<Longrightarrow> current (on_bluez os gid c path p)"
proof -
  assume c: "current p \<or> (\<exists>s. p_session p = Some s \<and> \<not> is_open s) \<or> \<not> c"
  define p1 where "p1 = (let p = p\<lparr>p_attempts := 0\<rparr> in
      if p_retry_id p \<noteq> 0 then (remove_source (p_retry_id p) p)\<lparr>p_retry_id := 0\<rparr> else p)"
  have "current p1 = current p" "p_session p1 = p_session p" by (simp_all add: p1_def Let_def) (simp add: remove_source_def)
  with c have "c \<Longrightarrow> current (attach os gid p1)" by (auto intro: current_attach)
  then show ?thesis unfolding on_bluez_def p1_def [symmetric] Let_def by (simp add: p1_def Let_def)
qed

lemma current_with_watch: "current p \<Longrightarrow> current (with_watch os gid f p)"
  by (auto simp: with_watch_def case_prod_unfold Let_def current_on_bluez split: option.split)

lemma snapshot_cong:
  assumes "p_opts p = p_opts q" "p_status p = p_status q"
    and "p_session p = Some s" "p_session q = Some t"
    and "is_open s = is_open t" "s_phase s = s_phase t" "cache_of s = cache_of t"
  shows "snapshot p = snapshot q"
  using assms by (simp add: snapshot_def cache_of_def Let_def)

text \<open>An idle step changes nothing a snapshot shows; any other step publishes.\<close>

lemma current_tick:
  assumes "current p" shows "current (snd (tick os p))"
proof (cases "p_session p")
  case None
  with assms show ?thesis by (simp add: tick_def)
next
  case (Some s)
  obtain st s' where x: "session_step os (pump_hook (o_verbose (p_opts p))) 0 s = (st, s')" by fastforce
  have "snapshot (p\<lparr>p_session := Some s'\<rparr>) = snapshot p" if "step_idle st"
    using logging_hook.step_idle_keeps [of os "o_verbose (p_opts p)" 0 s] x that Some
    by (intro snapshot_cong [where s = s' and t = s]) auto
  then have "current (p\<lparr>p_session := Some s'\<rparr>)" if "step_idle st"
    using that assms by (simp add: current_def)
  then show ?thesis using tick_cases [OF Some x] by simp
qed

lemma current_fire: "current p \<Longrightarrow> pump_inv gid {} p \<Longrightarrow> (i, src) \<in> set (l_live (p_loop p)) \<Longrightarrow> glib_ids gid \<Longrightarrow>
   current (snd (fire os gid src reply p))"
proof -
  assume c: "current p" and i: "pump_inv gid {} p" "(i, src) \<in> set (l_live (p_loop p))" "glib_ids gid"
  have "\<not> (\<exists>ms. src = SelfTestTimer ms)"
    using live_is_owned [OF i(3) _ i(2)] i(1) by (auto simp: pump_inv_def owner_def)
  with c show ?thesis
    by (cases src) (auto simp: fire_def current_tick retry_trampoline_def current_attach current_with_watch)
qed

lemma current_handle: "glib_ids gid \<Longrightarrow> pump_inv gid {} p \<Longrightarrow> current p \<Longrightarrow> current (pump_handle os gid e p)"
proof (cases e)
  case (Fire i reply)
  assume *: "glib_ids gid" "pump_inv gid {} p" "current p"
  show ?thesis
  proof (cases "map_of (l_live (p_loop p)) i")
    case (Some src)
    with current_fire [OF *(3,2) map_of_SomeD [OF Some] *(1)] Fire show ?thesis
      by (simp add: case_prod_unfold Let_def)
  qed (use Fire * in simp)
qed (auto simp: current_with_watch case_prod_unfold Let_def split: option.split)

lemma bw_start_reports: "\<not> bw_primed w \<Longrightarrow> bus \<Longrightarrow> snd (snd (bw_start bus reply w)) \<noteq> None"
  by (auto simp: bw_start_def bw_rescan_def bw_update_report case_prod_unfold Let_def split: option.splits)

lemma current_start:
  assumes "\<not> o_self_test op" shows "current (pump_start os gid bus reply (new_pump op))"
proof (cases bus)
  case False
  with assms new_session_inv(2) [of config_defaults] show ?thesis
    by (simp add: pump_start_def bw_start_keeps new_pump_def current_attach)
next
  case True
  define p1 where "p1 = new_pump op\<lparr>p_session := Some (new_session config_defaults),
      p_watch := Some (new_watch (o_mac op))\<rparr>"
  have "snd (snd (bw_start bus reply (new_watch (o_mac op)))) \<noteq> None"
    using True by (intro bw_start_reports) (simp_all add: new_watch_def)
  then obtain c path where r: "snd (snd (bw_start bus reply (new_watch (o_mac op)))) = Some (c, path)" by auto
  have "pump_start os gid bus reply (new_pump op) = with_watch os gid (\<lambda>w. snd (bw_start bus reply w)) p1"
    using True assms by (simp add: pump_start_def bw_start_keeps p1_def new_pump_def)
  also have "\<dots> = on_bluez os gid c path (p1\<lparr>p_watch := Some (fst (snd (bw_start bus reply (new_watch (o_mac op)))))\<rparr>)"
    using r by (simp add: with_watch_def p1_def case_prod_unfold Let_def)
  finally show ?thesis using new_session_inv(2) [of config_defaults] by (simp add: current_on_bluez p1_def)
qed

lemma pump_reachable_current:
  assumes "pump_reachable os gid op p" "glib_ids gid" "\<not> o_self_test op"
  shows "current p"
  using assms(1)
proof (induction rule: pump_reachable.induct)
  case (started bus reply)
  show ?case by (rule current_start [OF assms(3)])
next
  case (handled p e)
  then show ?case using current_handle [OF assms(2) pump_reachable_inv [OF _ assms(2,3)]] by blast
qed

section \<open>Published snapshots tell the truth\<close>

text \<open>
  A component shows a percentage exactly when the pods reported one: present, not
  disconnected, 0 to 100, and then it is the raw byte. The channel is shown open exactly when
  the phase is not \<open>closed\<close>, and components are shown only once there was a reading.
\<close>

definition view_truthful :: "component_view \<Rightarrow> bool" where
  "view_truthful v \<longleftrightarrow>
     cv_level v = (if cv_status v \<noteq> ''disconnected'' \<and> cv_raw_level v \<le> 100 then Some (cv_raw_level v) else None)"

definition state_truthful :: "state \<Rightarrow> bool" where
  "state_truthful v \<longleftrightarrow>
     smap_ok (v_components v)
     \<and> list_all (\<lambda>(k, c). k \<in> {''left'', ''right'', ''case''} \<and> view_truthful c) (v_components v)
     \<and> (v_channel_open v \<longleftrightarrow> v_phase v \<noteq> ''closed'')
     \<and> (v_have_battery v \<or> v_components v = [])"

lemma status_name_disconnected [simp]: "status_name st = ''disconnected'' \<longleftrightarrow> st = Disconnected"
  by (cases st) simp_all

lemma phase_name_closed [simp]: "phase_name ph = ''closed'' \<longleftrightarrow> ph = Closed"
  by (cases ph) simp_all

lemma view_of_truthful: "component_ok c \<Longrightarrow> view_truthful (view_of c)"
  by (simp add: view_truthful_def view_of_def component_ok_def believed_def)

lemma components_view_snoc:
  "components_view (cs @ [c]) = smap_insert (component_name (component c)) (view_of c) (components_view cs)"
  by (simp add: components_view_def)

lemma components_view_ok: "smap_ok (components_view cs)"
  by (induction cs rule: rev_induct) (simp_all add: components_view_snoc smap_ok_insert components_view_def [of "[]"])

text \<open>The map holds, for each key, the last component of that name.\<close>

lemma components_view_lookup:
  "map_of (components_view cs) k = map_option view_of (find (\<lambda>c. component_name (component c) = k) (rev cs))"
  by (induction cs rule: rev_induct) (auto simp: components_view_snoc components_view_def [of "[]"])

lemma components_view_entry:
  assumes "(k, v) \<in> set (components_view cs)"
  obtains c where "c \<in> set cs" "k = component_name (component c)" "v = view_of c"
proof -
  have "map_of (components_view cs) k = Some v"
    using assms smap_ok_distinct [OF components_view_ok] by (simp add: map_of_eq_Some_iff)
  then show ?thesis using that by (auto simp: components_view_lookup find_Some_iff)
    (metis nth_mem set_rev length_rev)
qed

lemma components_view_truthful:
  assumes "report_ok r" "(k, v) \<in> set (components_view (components r))"
  shows "k \<in> {''left'', ''right'', ''case''}" "view_truthful v"
proof -
  obtain c where c: "c \<in> set (components r)" "k = component_name (component c)" "v = view_of c"
    using components_view_entry [OF assms(2)] by blast
  show "k \<in> {''left'', ''right'', ''case''}" using c(2) by (cases "component c") simp_all
  show "view_truthful v" using c report_ok_component [OF assms(1)] view_of_truthful by blast
qed

text \<open>What every operation of the session keeps: the cache is parsed, no descriptor is lost.\<close>

definition session_kept :: "session \<Rightarrow> bool" where
  "session_kept s \<longleftrightarrow> cache_parsed s \<and> fds_balanced s"

lemma session_kept_new: "session_kept (new_session c)"
  by (simp add: session_kept_def cache_parsed_new fds_new_session)

lemma session_kept_close: "session_kept s \<Longrightarrow> session_kept (session_close s)"
  using cache_parsed_cong [OF cache_close] by (auto simp: session_kept_def logging_hook.fds.close)

lemma session_kept_open: "session_kept s \<Longrightarrow> session_kept (snd (session_open os (pump_hook v) mac s))"
  using cache_parsed_cong [OF logging_hook.session_open_cache [of os v mac s]]
  by (simp add: session_kept_def logging_hook.fds.opened)

lemma session_kept_step: "session_kept s \<Longrightarrow> session_kept (snd (session_step os (pump_hook v) tmo s))"
  using cache_parsed_cached [OF logging_hook.session_step_cached [of os v tmo s]]
  by (simp add: session_kept_def logging_hook.fds.step)

definition session_good :: "pump \<Rightarrow> bool" where
  "session_good p \<longleftrightarrow> (\<exists>s k. p_session p = Some s \<and> session_inv k s \<and> session_kept s)"

definition published_ok :: "pump \<Rightarrow> bool" where
  "published_ok p \<longleftrightarrow> session_good p \<and> list_all state_truthful (p_out p)"

lemma snapshot_truthful: "session_good p \<Longrightarrow> state_truthful (snapshot p)"
proof -
  assume "session_good p"
  then obtain s k where s: "p_session p = Some s" "session_inv k s" "session_kept s"
    unfolding session_good_def by blast
  have ph: "is_open s \<longleftrightarrow> s_phase s \<noteq> Closed" using s(2) by (auto simp: session_inv_def)
  show ?thesis
  proof (cases "s_last_battery s")
    case None
    with s(1) ph show ?thesis by (simp add: snapshot_def state_truthful_def default_state_def)
  next
    case (Some r)
    then obtain pk where "parse_battery pk = Some r" using s(3) by (auto simp: session_kept_def cache_parsed_def)
    then have "report_ok r" by (rule parse_battery_report_ok)
    then have "list_all (\<lambda>(k, c). k \<in> {''left'', ''right'', ''case''} \<and> view_truthful c) (components_view (components r))"
      using components_view_truthful unfolding list_all_iff by blast
    with Some s(1) ph components_view_ok show ?thesis
      by (simp add: snapshot_def state_truthful_def default_state_def)
  qed
qed

lemma session_good_other [simp]:
  "session_good (p\<lparr>p_loop := l\<rparr>) = session_good p" "session_good (p\<lparr>p_timer_id := i\<rparr>) = session_good p"
  "session_good (p\<lparr>p_retry_id := i\<rparr>) = session_good p" "session_good (p\<lparr>p_attempts := n\<rparr>) = session_good p"
  "session_good (p\<lparr>p_watch := w\<rparr>) = session_good p" "session_good (p\<lparr>p_status := t\<rparr>) = session_good p"
  "session_good (p\<lparr>p_out := x\<rparr>) = session_good p" "session_good (remove_source i p) = session_good p"
  by (simp_all add: session_good_def remove_source_def)

lemma published_ok_other [simp]:
  "published_ok (p\<lparr>p_loop := l\<rparr>) = published_ok p" "published_ok (p\<lparr>p_timer_id := i\<rparr>) = published_ok p"
  "published_ok (p\<lparr>p_retry_id := i\<rparr>) = published_ok p" "published_ok (p\<lparr>p_attempts := n\<rparr>) = published_ok p"
  "published_ok (p\<lparr>p_watch := w\<rparr>) = published_ok p" "published_ok (p\<lparr>p_status := t\<rparr>) = published_ok p"
  "published_ok (remove_source i p) = published_ok p"
  by (simp_all add: published_ok_def) (simp add: remove_source_def)

lemma published_publish [simp]: "published_ok p \<Longrightarrow> published_ok (publish_now p)"
  using snapshot_truthful by (simp add: published_ok_def publish_now_def)

lemma published_session:
  "published_ok p \<Longrightarrow> session_inv k s \<Longrightarrow> session_kept s \<Longrightarrow> published_ok (p\<lparr>p_session := Some s\<rparr>)"
  by (auto simp: published_ok_def session_good_def)

lemma published_ok_session:
  assumes "published_ok p"
  obtains s k where "p_session p = Some s" "session_inv k s" "session_kept s"
  using assms unfolding published_ok_def session_good_def by blast

lemma published_schedule_retry [simp]: "published_ok p \<Longrightarrow> published_ok (schedule_retry gid p)"
  by (auto simp: schedule_retry_def add_source_eq Let_def split: option.split)

lemma published_attach [simp]:
  assumes "published_ok p" shows "published_ok (attach os gid p)"
proof -
  obtain s k where s: "p_session p = Some s" "session_inv k s" "session_kept s"
    by (rule published_ok_session [OF assms])
  show ?thesis
  proof (cases "is_open s")
    case True
    with s(1) assms show ?thesis by (simp add: attach_def)
  next
    case False
    obtain r s' where o1: "session_open os (pump_hook (o_verbose (p_opts p))) (o_mac (p_opts p)) s = (r, s')"
      by fastforce
    have "session_inv (length (w_trace s)) s'"
      using logging_hook.session_open_ok(1) [OF False session_inv_closedD [OF s(2) False]] o1 by (metis snd_conv)
    moreover have "session_kept s'" using session_kept_open [OF s(3)] o1 by (metis snd_conv)
    ultimately have "published_ok (p\<lparr>p_attempts := Suc (p_attempts p), p_session := Some s'\<rparr>)"
      using published_session [of "p\<lparr>p_attempts := Suc (p_attempts p)\<rparr>"] assms by simp
    then show ?thesis
      using s(1) False o1 by (simp add: attach_def Let_def add_source_eq del: pump.update_convs)
  qed
qed

lemma published_detach [simp]:
  assumes "published_ok p" shows "published_ok (detach why p)"
proof -
  obtain s k where s: "p_session p = Some s" "session_inv k s" "session_kept s"
    by (rule published_ok_session [OF assms])
  define p1 where "p1 = (if p_timer_id p \<noteq> 0 then (remove_source (p_timer_id p) p)\<lparr>p_timer_id := 0\<rparr> else p)"
  have p1: "published_ok p1" "p_session p1 = Some s"
    using assms s(1) by (simp_all add: p1_def) (simp add: remove_source_def)
  have "session_kept (session_close s)" by (rule session_kept_close [OF s(3)])
  with p1(1) have "published_ok (p1\<lparr>p_session := Some (session_close s)\<rparr>)"
    by (rule published_session [OF _ session_inv_close [OF s(2)]])
  then show ?thesis using p1(2) unfolding detach_def p1_def [symmetric] Let_def by simp
qed

lemma published_on_bluez [simp]: "published_ok p \<Longrightarrow> published_ok (on_bluez os gid c path p)"
  by (simp add: on_bluez_def Let_def)

lemma published_with_watch [simp]: "published_ok p \<Longrightarrow> published_ok (with_watch os gid f p)"
  by (auto simp: with_watch_def case_prod_unfold Let_def split: option.split)

lemma published_tick [simp]:
  assumes "published_ok p" shows "published_ok (snd (tick os p))"
proof -
  obtain s k where s: "p_session p = Some s" "session_inv k s" "session_kept s"
    by (rule published_ok_session [OF assms])
  obtain st s' where x: "session_step os (pump_hook (o_verbose (p_opts p))) 0 s = (st, s')" by fastforce
  have "session_inv k s'"
    using logging_hook.session_step_ok(1) [OF s(2), of os "o_verbose (p_opts p)" 0] x by simp
  moreover have "session_kept s'" using session_kept_step [OF s(3)] x by (metis snd_conv)
  ultimately have "published_ok (p\<lparr>p_session := Some s'\<rparr>)"
    by (rule published_session [OF assms])
  then show ?thesis using tick_cases [OF s(1) x] published_detach [of "p\<lparr>p_session := Some s', p_timer_id := 0\<rparr>"]
    by simp
qed

text \<open>The self-test snapshots keep to the same rules, which is what makes them a test.\<close>

lemma smap_ok_insert3 [simp]: "smap_ok (smap_insert k1 v1 (smap_insert k2 v2 (smap_insert k3 v3 [])))"
  by (intro smap_ok_insert smap_ok_Nil)

lemma self_test_truthful: "state_truthful (self_test_first op)" "state_truthful (self_test_second op)"
  by (simp_all add: self_test_first_def self_test_second_def self_test_base_def state_truthful_def
      default_state_def) (simp_all add: view_truthful_def smap_ok_def)

lemma published_self_test: "published_ok p \<Longrightarrow> published_ok (snd (self_test_trampoline p))"
  using self_test_truthful by (simp add: self_test_trampoline_def published_ok_def)

lemma published_fire: "published_ok p \<Longrightarrow> published_ok (snd (fire os gid src reply p))"
  by (cases src) (simp_all add: fire_def retry_trampoline_def published_self_test)


lemma published_handle: "published_ok p \<Longrightarrow> published_ok (pump_handle os gid e p)"
  by (cases e) (auto simp: case_prod_unfold Let_def published_fire split: option.split)

interpretation pump_published: event_handler "pump_handle os gid" published_ok for os gid
  by unfold_locales (rule published_handle)

lemma published_start: "\<not> o_self_test op \<Longrightarrow> published_ok (pump_start os gid bus reply (new_pump op))"
proof -
  assume st: "\<not> o_self_test op"
  have "published_ok (new_pump op\<lparr>p_session := Some (new_session config_defaults)\<rparr>)"
    using new_session_inv(1) session_kept_new by (auto simp: published_ok_def session_good_def new_pump_def)
  moreover have "\<not> o_self_test (p_opts (new_pump op))" using st by (simp add: new_pump_def)
  ultimately show ?thesis by (simp add: pump_start_def Let_def del: pump.update_convs)
qed

lemma pump_reachable_published:
  assumes "pump_reachable os gid op p" "\<not> o_self_test op" shows "published_ok p"
  using assms(1)
proof (induction rule: pump_reachable.induct)
  case (started bus reply)
  show ?case by (rule published_start [OF assms(2)])
next
  case (handled p e)
  show ?case by (rule published_handle [OF handled.IH])
qed

end
