(* ===== verification/Pump_Runs.thy ===== *)
theory Pump_Runs
  imports Pump
begin

text \<open>
  Runs of the pump of \<open>daemon/src/pump.cpp\<close>: how often and when it retries a failed connect,
  what an attempt to attach leaves behind, and what the self test publishes.
\<close>

section \<open>When a retry fires\<close>

text \<open>A pending retry was scheduled with the delay its attempt number gives.\<close>

definition retry_delay :: "pump \<Rightarrow> bool" where
  "retry_delay p \<longleftrightarrow> (p_retry_id p \<noteq> 0 \<longrightarrow>
     (p_retry_id p, RetryTimer (kRetryMs ! (p_attempts p - 1))) \<in> set (l_live (p_loop p)))"

lemma retry_delay_none: "p_retry_id p = 0 \<Longrightarrow> retry_delay p"
  by (simp add: retry_delay_def)

lemma retry_delay_schedule: "p_retry_id p = 0 \<Longrightarrow> retry_delay (schedule_retry gid p)"
  by (auto simp: schedule_retry_def add_source_eq retry_delay_def split: option.split)

lemma attach_retry_delay: "p_retry_id p = 0 \<Longrightarrow> retry_delay (attach os gid p)"
  by (auto simp: attach_def case_prod_unfold Let_def add_source_eq remove_source_def retry_delay_none
      retry_delay_schedule split: option.split)

lemma detach_retry [simp]:
  "p_retry_id (detach why p) = p_retry_id p" "p_attempts (detach why p) = p_attempts p"
  by (simp_all add: detach_def Let_def remove_source_def)

lemma on_bluez_retry_delay: "retry_delay (on_bluez os gid c path p)"
proof -
  define p1 where "p1 = (let p = p\<lparr>p_attempts := 0\<rparr> in
      if p_retry_id p \<noteq> 0 then (remove_source (p_retry_id p) p)\<lparr>p_retry_id := 0\<rparr> else p)"
  have "p_retry_id p1 = 0" by (simp add: p1_def Let_def)
  then show ?thesis
    unfolding on_bluez_def p1_def [symmetric] Let_def
    using attach_retry_delay [of p1 os gid] by (auto simp: p1_def Let_def intro!: retry_delay_none)
qed

lemma with_watch_retry_delay: "retry_delay p \<Longrightarrow> retry_delay (with_watch os gid f p)"
  by (auto simp: with_watch_def case_prod_unfold Let_def on_bluez_retry_delay split: option.split)
    (simp add: retry_delay_def)

lemma tick_retry [simp]:
  "p_retry_id (snd (tick os p)) = p_retry_id p" "p_attempts (snd (tick os p)) = p_attempts p"
  by (auto simp: tick_def case_prod_unfold Let_def split: option.split)

lemma remove_retry_delay: "retry_delay p \<Longrightarrow> p_retry_id p \<noteq> i \<Longrightarrow> retry_delay (remove_source i p)"
  by (auto simp: retry_delay_def remove_source_def)

lemma pump_wired_dispatched: "pump_wired gid {i} p \<Longrightarrow> i \<noteq> 0 \<Longrightarrow> p_retry_id p \<noteq> i"
  using wiredD(4) [of gid "{i}" "p_loop p" "owner p" KRetry] by (auto simp: pump_wired_def)

lemma fire_retry_delay:
  assumes g: "glib_ids gid" and inv: "pump_inv gid {} p" and d: "retry_delay p"
    and live: "(i, src) \<in> set (l_live (p_loop p))"
  shows "retry_delay (snd (fire os gid src reply p))"
proof (cases src)
  case (TickTimer ms)
  have w: "pump_wired gid {} p" "\<not> o_self_test (p_opts p)" using inv by (simp_all add: pump_inv_def)
  then have "p_timer_id p \<noteq> 0" using live_is_owned [OF g w(1) live] TickTimer by simp
  then have "p_retry_id p = 0" using pump_inv_retryD [OF inv] by auto
  then show ?thesis using TickTimer by (intro retry_delay_none) (simp add: fire_def)
next
  case (RetryTimer ms)
  then show ?thesis by (simp add: fire_def retry_trampoline_def attach_retry_delay)
next
  case (SelfTestTimer ms)
  with d show ?thesis by (simp add: fire_def self_test_trampoline_def retry_delay_def)
next
  case (RescanTimer ms)
  with d show ?thesis by (simp add: fire_def with_watch_retry_delay)
qed

lemma handle_retry_delay:
  assumes g: "glib_ids gid" and inv: "pump_inv gid {} p" and d: "retry_delay p"
  shows "retry_delay (pump_handle os gid e p)"
proof (cases e)
  case (Fire i reply)
  show ?thesis
  proof (cases "map_of (l_live (p_loop p)) i")
    case (Some src)
    have live: "(i, src) \<in> set (l_live (p_loop p))" by (rule map_of_SomeD [OF Some])
    have w: "pump_wired gid {} p" using inv by (simp add: pump_inv_def)
    have "i \<noteq> 0" using live_is_owned [OF g w live] by simp
    then have "\<not> fst (fire os gid src reply p) \<Longrightarrow> p_retry_id (snd (fire os gid src reply p)) \<noteq> i"
      using fire_inv [OF g inv live, of os reply] pump_wired_dispatched by (auto simp: pump_inv_def)
    then show ?thesis
      using Fire Some fire_retry_delay [OF g inv d live, of os reply] remove_retry_delay
      by (auto simp: case_prod_unfold Let_def)
  qed (use Fire d in simp)
next
  case InterfacesChanged
  show ?thesis
  proof (cases "p_watch p")
    case (Some w)
    have wd: "wired gid {} (p_loop p) (owner p)" using inv by (simp add: pump_inv_def pump_wired_def)
    have own: "owner p KRescan = bw_timer w" using Some by (simp add: owner_def)
    have "bw_timer w \<noteq> 0 \<Longrightarrow> p_retry_id p \<noteq> bw_timer w"
      using wired_distinct [OF wd, of KRescan KRetry] own by simp
    then show ?thesis
      using InterfacesChanged Some d
      by (auto simp: retry_delay_def bw_interfaces_changed_def bw_rescan_soon_def case_prod_unfold Let_def)
  qed (use InterfacesChanged d in simp)
qed (auto intro: with_watch_retry_delay d)

lemma start_retry_delay: "\<not> o_self_test op \<Longrightarrow> retry_delay (pump_start os gid bus reply (new_pump op))"
  by (simp add: pump_start_def Let_def new_pump_def attach_retry_delay with_watch_retry_delay retry_delay_none)

lemma pump_reachable_delay:
  assumes "pump_reachable os gid op p" "glib_ids gid" "\<not> o_self_test op"
  shows "retry_delay p"
  using assms(1)
proof (induction rule: pump_reachable.induct)
  case (started bus reply)
  show ?case by (rule start_retry_delay [OF assms(3)])
next
  case (handled p e)
  then show ?case using handle_retry_delay [OF assms(2) pump_reachable_inv [OF _ assms(2,3)]] by blast
qed

section \<open>How often a retry fires\<close>

text \<open>
  \<open>reports\<close>: the event makes the watch report a change to \<open>on_bluez\<close>. \<open>fires_retry\<close>: the
  event is the pending retry going off. \<open>retries\<close> counts those along a run.
\<close>

definition watch_reports :: "(watch \<Rightarrow> watch \<times> report) \<Rightarrow> pump \<Rightarrow> bool" where
  "watch_reports f p = (case p_watch p of None \<Rightarrow> False | Some w \<Rightarrow> snd (f w) \<noteq> None)"

fun reports :: "pump_event \<Rightarrow> pump \<Rightarrow> bool" where
  "reports (Fire i reply) p =
     (case map_of (l_live (p_loop p)) i of
        Some (RescanTimer _) \<Rightarrow> watch_reports (bw_rescan_trampoline reply) p
      | _ \<Rightarrow> False)"
| "reports (PropsChanged path c) p = watch_reports (bw_props_changed path c) p"
| "reports InterfacesChanged p = False"
| "reports (BluezAppeared reply) p = watch_reports (bw_appeared reply) p"
| "reports BluezVanished p = watch_reports bw_vanished p"

fun fires_retry :: "pump_event \<Rightarrow> pump \<Rightarrow> bool" where
  "fires_retry (Fire i reply) p =
     (case map_of (l_live (p_loop p)) i of Some (RetryTimer _) \<Rightarrow> True | _ \<Rightarrow> False)"
| "fires_retry _ p = False"

fun unreported :: "os \<Rightarrow> (nat \<Rightarrow> nat) \<Rightarrow> pump_event list \<Rightarrow> pump \<Rightarrow> bool" where
  "unreported os gid [] p = True"
| "unreported os gid (e # es) p = (\<not> reports e p \<and> unreported os gid es (pump_handle os gid e p))"

fun retries :: "os \<Rightarrow> (nat \<Rightarrow> nat) \<Rightarrow> pump_event list \<Rightarrow> pump \<Rightarrow> nat" where
  "retries os gid [] p = 0"
| "retries os gid (e # es) p =
     (if fires_retry e p then 1 else 0) + retries os gid es (pump_handle os gid e p)"

lemma schedule_retry_attempts [simp]: "p_attempts (schedule_retry gid p) = p_attempts p"
  by (simp add: schedule_retry_def add_source_eq split: option.split)

lemma attach_attempts:
  "p_session p = Some s \<Longrightarrow> \<not> is_open s \<Longrightarrow> p_attempts (attach os gid p) = Suc (p_attempts p)"
  by (simp add: attach_def case_prod_unfold Let_def add_source_eq remove_source_def)

lemma with_watch_attempts:
  "\<not> watch_reports f p \<Longrightarrow> p_attempts (with_watch os gid f p) = p_attempts p"
  by (auto simp: watch_reports_def with_watch_def case_prod_unfold Let_def split: option.split)

lemma remove_source_sels [simp]: "p_attempts (remove_source i p) = p_attempts p"
  by (simp add: remove_source_def)

lemma pump_inv_retry_closed:
  "pump_inv gid X p \<Longrightarrow> p_retry_id p \<noteq> 0 \<Longrightarrow> \<exists>s. p_session p = Some s \<and> \<not> is_open s"
  by (auto simp: pump_inv_def channel_ok_def retry_ok_def)

lemma handle_attempts:
  assumes g: "glib_ids gid" and inv: "pump_inv gid {} p" and nr: "\<not> reports e p"
  shows "p_attempts (pump_handle os gid e p) = p_attempts p + (if fires_retry e p then 1 else 0)"
proof (cases e)
  case (Fire i reply)
  show ?thesis
  proof (cases "map_of (l_live (p_loop p)) i")
    case (Some src)
    have w: "pump_wired gid {} p" using inv by (simp add: pump_inv_def)
    have own: "owner p (kind_of src) = i" "i \<noteq> 0"
      using live_is_owned [OF g w map_of_SomeD [OF Some]] by simp_all
    show ?thesis
    proof (cases src)
      case (RetryTimer ms)
      then have "p_retry_id p \<noteq> 0" using own by simp
      then obtain s where "p_session p = Some s" "\<not> is_open s" using pump_inv_retry_closed [OF inv] by blast
      then have "p_attempts (attach os gid (p\<lparr>p_retry_id := 0\<rparr>)) = Suc (p_attempts p)"
        by (subst attach_attempts) auto
      then show ?thesis using Fire Some RetryTimer by (simp add: fire_def retry_trampoline_def)
    next
      case (RescanTimer ms)
      then show ?thesis using Fire Some nr by (simp add: fire_def with_watch_attempts)
    qed (use Fire Some in \<open>simp_all add: fire_def self_test_trampoline_def case_prod_unfold Let_def\<close>)
  qed (use Fire in simp)
qed (use nr in \<open>auto simp: with_watch_attempts case_prod_unfold Let_def split: option.split\<close>)

lemma run_attempts:
  assumes "glib_ids gid" "pump_inv gid {} p" "unreported os gid es p"
  shows "p_attempts (pump_run os gid es p) = p_attempts p + retries os gid es p"
  using assms
proof (induction es arbitrary: p)
  case Nil
  then show ?case by (simp add: pump_run_def)
next
  case (Cons e es)
  then have "p_attempts (pump_run os gid es (pump_handle os gid e p)) =
      p_attempts (pump_handle os gid e p) + retries os gid es (pump_handle os gid e p)"
    using pump_handle_inv by simp
  then show ?case using Cons.prems handle_attempts [of gid p e os] by (simp add: pump_run_def)
qed

section \<open>What an attempt leaves behind\<close>

text \<open>A pump that may attach: closed, nothing pending, BlueZ says the pods are here.\<close>

definition may_attach :: "pump \<Rightarrow> bool" where
  "may_attach p \<longleftrightarrow> (\<exists>s w. p_session p = Some s \<and> \<not> is_open s \<and> p_watch p = Some w \<and> bw_connected w)
     \<and> p_retry_id p = 0 \<and> p_attempts p < kMaxAttempts"

lemma attach_outcome:
  assumes m: "may_attach p" and s: "p_session p = Some s"
    and o1: "session_open os (pump_hook (o_verbose (p_opts p))) (o_mac (p_opts p)) s = (r, s')"
  shows "ok r \<Longrightarrow> p_status (attach os gid p) = ''channel open''"
    and "\<not> ok r \<Longrightarrow> Suc (p_attempts p) < kMaxAttempts \<Longrightarrow>
         l_live (p_loop (attach os gid p)) = l_live (p_loop p)
           @ [(gid (l_added (p_loop p)), RetryTimer (kRetryMs ! p_attempts p))]
         \<and> p_retry_id (attach os gid p) = gid (l_added (p_loop p))"
    and "\<not> ok r \<Longrightarrow> Suc (p_attempts p) = kMaxAttempts \<Longrightarrow>
         p_retry_id (attach os gid p) = 0 \<and> p_loop (attach os gid p) = p_loop p
         \<and> p_status (attach os gid p) =
             stage_name (reached r) @ '': '' @ diagnosis r @ '' (gave up after 3 attempts)''"
  using assms
  by (auto simp: attach_def may_attach_def schedule_retry_def add_source_eq remove_source_def
      fmt_u.simps [of 3] dec_digit_def
      case_prod_unfold Let_def)

section \<open>The self test\<close>

text \<open>
  With \<open>--self-test\<close> there is never a session or a watch: whatever happens, the pump publishes
  the two synthetic snapshots, in order, and nothing else.
\<close>

definition self_test_inv :: "(nat \<Rightarrow> nat) \<Rightarrow> options \<Rightarrow> pump \<Rightarrow> bool" where
  "self_test_inv gid op p \<longleftrightarrow> p_opts p = op \<and> p_session p = None \<and> p_watch p = None \<and>
     ((p_out p = [self_test_first op] \<and> l_live (p_loop p) = [(gid 0, SelfTestTimer 1000)])
      \<or> (p_out p = [self_test_first op, self_test_second op] \<and> l_live (p_loop p) = []))"

lemma self_test_start: "o_self_test op \<Longrightarrow> self_test_inv gid op (pump_start os gid bus reply (new_pump op))"
  by (simp add: pump_start_def run_self_test_def new_pump_def add_source_eq self_test_inv_def Let_def
      timeout_add_def)

lemma self_test_handle: "self_test_inv gid op p \<Longrightarrow> self_test_inv gid op (pump_handle os gid e p)"
  by (cases e) (auto simp: self_test_inv_def with_watch_def fire_def self_test_trampoline_def
      remove_source_def source_remove_def)

interpretation self_test: event_handler "pump_handle os gid" "self_test_inv gid op" for os gid op
  by unfold_locales (rule self_test_handle)

lemma self_test_fired:
  "self_test_inv gid op p \<Longrightarrow> p_out p = [self_test_first op] \<Longrightarrow>
   p_out (pump_handle os gid (Fire (gid 0) reply) p) = [self_test_first op, self_test_second op]"
  by (auto simp: self_test_inv_def fire_def self_test_trampoline_def remove_source_def)

text \<open>The two differ in the components \<open>right\<close> and \<open>case\<close> and in nothing else.\<close>

lemma self_test_difference:
  "(self_test_second op)\<lparr>v_components := v_components (self_test_first op)\<rparr> = self_test_first op"
  "map_of (v_components (self_test_first op)) ''left'' = map_of (v_components (self_test_second op)) ''left''"
  "map_option cv_level (map_of (v_components (self_test_first op)) ''right'') = Some (Some 94)"
  "map_option cv_level (map_of (v_components (self_test_second op)) ''right'') = Some (Some 95)"
  "map_option cv_level (map_of (v_components (self_test_first op)) ''case'') = Some None"
  "map_option cv_level (map_of (v_components (self_test_second op)) ''case'') = Some (Some 72)"
  by (simp_all add: self_test_first_def self_test_second_def)

section \<open>The publisher's side\<close>

text \<open>
  What the pump relies on when it hands out snapshots: a consumer shows the last one it was
  given. The pump's promise is \<open>current\<close>; together, the consumer shows the present.
\<close>

locale publisher =
  fixes put :: "state \<Rightarrow> 'p \<Rightarrow> 'p"
    and shown :: "'p \<Rightarrow> state option"
  assumes shown_put: "shown (put v c) = Some v"
begin

lemma shown_fold: "vs \<noteq> [] \<Longrightarrow> shown (fold put vs c) = Some (last vs)"
  by (induction vs rule: rev_induct) (simp_all add: shown_put)

lemma shown_current: "current p \<Longrightarrow> shown (fold put (p_out p) c) = Some (snapshot p)"
  by (simp add: current_def shown_fold)

end

section \<open>The history only grows\<close>

lemma prefix_publish [simp]: "prefix xs (p_out p) \<Longrightarrow> prefix xs (p_out (publish_now p))"
  by (simp add: publish_now_def prefix_prefix)

lemma prefix_schedule_retry [simp]: "prefix xs (p_out p) \<Longrightarrow> prefix xs (p_out (schedule_retry gid p))"
  by (auto simp: schedule_retry_def add_source_eq Let_def split: option.split)

lemma prefix_remove_source [simp]: "p_out (remove_source i p) = p_out p"
  by (simp add: remove_source_def)

lemma prefix_attach [simp]: "prefix xs (p_out p) \<Longrightarrow> prefix xs (p_out (attach os gid p))"
  by (auto simp: attach_def add_source_eq case_prod_unfold Let_def split: option.split)

lemma prefix_detach [simp]: "prefix xs (p_out p) \<Longrightarrow> prefix xs (p_out (detach why p))"
  by (simp add: detach_def Let_def)

lemma prefix_on_bluez [simp]: "prefix xs (p_out p) \<Longrightarrow> prefix xs (p_out (on_bluez os gid c path p))"
  by (simp add: on_bluez_def Let_def)

lemma prefix_with_watch [simp]: "prefix xs (p_out p) \<Longrightarrow> prefix xs (p_out (with_watch os gid f p))"
  by (auto simp: with_watch_def case_prod_unfold Let_def split: option.split)

lemma prefix_fire: "prefix (p_out p) (p_out (snd (fire os gid src reply p)))"
  by (cases src)
    (auto simp: fire_def tick_def retry_trampoline_def self_test_trampoline_def case_prod_unfold Let_def
      split: option.split)

lemma pump_handle_grows: "prefix (p_out p) (p_out (pump_handle os gid e p))"
  by (cases e) (auto simp: case_prod_unfold Let_def prefix_fire split: option.split)

section \<open>Properties\<close>

text \<open>Concrete runs for the examples: the kernel accepts, or refuses the connect.\<close>

definition sample_options :: options where
  "sample_options = \<lparr>o_mac = ''AA:BB:CC:DD:EE:FF'', o_tick_ms = 200, o_verbose = True, o_self_test = False\<rparr>"

definition refusing_os :: os where
  "refusing_os = sample_os\<lparr>os_connect := \<lambda>i. (-1, ECONNREFUSED)\<rparr>"

definition attached_pump :: pump where
  "attached_pump = pump_run sample_os Suc [Fire 1 None, Fire 1 None, Fire 1 None]
     (pump_start sample_os Suc True (Some sample_objects) (new_pump sample_options))"

definition refused_pump :: pump where
  "refused_pump = pump_start refusing_os Suc True (Some sample_objects) (new_pump sample_options)"

lemma glib_ids_Suc: "glib_ids Suc"
  by (simp add: glib_ids_def)

lemma no_self_test: "\<not> o_self_test sample_options"
  by (simp add: sample_options_def)

lemma attached_reachable: "pump_reachable sample_os Suc sample_options attached_pump"
  unfolding attached_pump_def by (rule pump_reachable_run)

lemma refused_reachable: "pump_reachable refusing_os Suc sample_options refused_pump"
  unfolding refused_pump_def by (rule pump_reachable.started)

lemma attached_values:
  "l_live (p_loop attached_pump) = [(1, TickTimer 200)] \<and> map_option is_open (p_session attached_pump) = Some True
   \<and> map_option s_last_battery (p_session attached_pump) = Some (Some sample_report)"
  by code_simp

lemma refused_values:
  "l_live (p_loop refused_pump) = [(1, RetryTimer 1000)] \<and> map_option is_open (p_session refused_pump) = Some False
   \<and> p_attempts refused_pump = 1"
  by code_simp

lemma live_kinds_distinct:
  assumes "glib_ids gid" "pump_wired gid {} p"
  shows "distinct (map (\<lambda>(i, src). kind_of src) (l_live (p_loop p)))"
proof -
  have d: "distinct (map fst (l_live (p_loop p)))"
    using wiredD(1) assms(2) by (auto simp: pump_wired_def loop_ok_def)
  have "map fst (l_live (p_loop p)) = map (owner p) (map (\<lambda>(i, src). kind_of src) (l_live (p_loop p)))"
    using live_is_owned [OF assms] by force
  with d show ?thesis by (metis distinct_map)
qed

text \<open>
  C8: In every reachable state of the daemon the session is pumped exactly while its channel is
  open: a tick is scheduled if and only if the socket is open. There is never more than one
  live source of a kind (tick, retry, rescan), so no timer is lost or doubled.
\<close>

theorem ticks_while_open:
  assumes "pump_reachable os gid op p" and "glib_ids gid" and "\<not> o_self_test op"
  shows "((\<exists>i ms. (i, TickTimer ms) \<in> set (l_live (p_loop p))) \<longleftrightarrow> (\<exists>s. p_session p = Some s \<and> is_open s))
    \<and> distinct (map (\<lambda>(i, src). kind_of src) (l_live (p_loop p)))"
proof -
  have inv: "pump_inv gid {} p" by (rule pump_reachable_inv [OF assms])
  then have w: "pump_wired gid {} p" "\<not> o_self_test (p_opts p)" "channel_ok p" by (simp_all add: pump_inv_def)
  have "(\<exists>i ms. (i, TickTimer ms) \<in> set (l_live (p_loop p))) \<longleftrightarrow> p_timer_id p \<noteq> 0"
  proof
    assume "\<exists>i ms. (i, TickTimer ms) \<in> set (l_live (p_loop p))"
    then obtain i ms where "(i, TickTimer ms) \<in> set (l_live (p_loop p))" by blast
    from live_is_owned [OF assms(2) w(1) this] w(2) show "p_timer_id p \<noteq> 0" by simp
  next
    assume "p_timer_id p \<noteq> 0"
    then obtain src where "(p_timer_id p, src) \<in> set (l_live (p_loop p))" "kind_of src = KTick"
      using wiredD(5) [OF w(1) [unfolded pump_wired_def], of KTick] w(2) by auto
    then show "\<exists>i ms. (i, TickTimer ms) \<in> set (l_live (p_loop p))" by (cases src) auto
  qed
  then show ?thesis using w(3) live_kinds_distinct [OF assms(2) w(1)] by (auto simp: channel_ok_def)
qed

theorem ticks_while_open_witness:
  "(\<exists>i ms. (i, TickTimer ms) \<in> set (l_live (p_loop attached_pump)))
   \<and> \<not> (\<exists>i ms. (i, TickTimer ms) \<in> set (l_live (p_loop refused_pump)))"
  using ticks_while_open [OF attached_reachable glib_ids_Suc no_self_test]
    ticks_while_open [OF refused_reachable glib_ids_Suc no_self_test] attached_values refused_values
  by auto

text \<open>
  C37: A retry is pending only while the channel is closed, BlueZ says the pods are on this
  machine and the attempts are not used up; it was scheduled 1000 ms ahead after the first
  failure and 2000 ms after the second, and no other delay occurs.
\<close>

theorem pending_retry:
  assumes "pump_reachable os gid op p" and "glib_ids gid" and "\<not> o_self_test op"
    and "(i, RetryTimer ms) \<in> set (l_live (p_loop p))"
  shows "(\<exists>s. p_session p = Some s \<and> \<not> is_open s) \<and> (\<exists>w. p_watch p = Some w \<and> bw_connected w)
    \<and> (p_attempts p, ms) \<in> {(1, 1000), (2, 2000)}"
proof -
  have inv: "pump_inv gid {} p" by (rule pump_reachable_inv [OF assms(1-3)])
  then have w: "pump_wired gid {} p" and r: "retry_ok p" by (simp_all add: pump_inv_def)
  have i: "p_retry_id p = i" "i \<noteq> 0" using live_is_owned [OF assms(2) w assms(4)] by simp_all
  have "(i, RetryTimer (kRetryMs ! (p_attempts p - 1))) \<in> set (l_live (p_loop p))"
    using pump_reachable_delay [OF assms(1-3)] i by (auto simp: retry_delay_def)
  then have "RetryTimer ms = RetryTimer (kRetryMs ! (p_attempts p - 1))"
    by (rule live_unique [OF wiredD(1) [OF w [unfolded pump_wired_def]] assms(4)])
  then have "ms = kRetryMs ! (p_attempts p - 1)" by simp
  moreover have "p_attempts p = 1 \<or> p_attempts p = 2" using pump_inv_retryD [OF inv] i by auto
  ultimately show ?thesis
    using pump_inv_retry_closed [OF inv] r i by (auto simp: kRetryMs_def retry_ok_def)
qed

theorem pending_retry_witness: "(p_attempts refused_pump, 1000 :: int) \<in> {(1, 1000), (2, 2000)}"
  using pending_retry [OF refused_reachable glib_ids_Suc no_self_test, of 1 1000] refused_values by auto

text \<open>
  C12: Retrying is bounded: between two reports of BlueZ, whatever else happens and however
  long it takes, at most three connects are attempted: the retries that still fire are at most
  what the attempts made so far leave of three.
\<close>

theorem retries_bounded:
  assumes "pump_reachable os gid op p" and "glib_ids gid" and "\<not> o_self_test op"
    and "unreported os gid es p"
  shows "p_attempts p + retries os gid es p = p_attempts (pump_run os gid es p)
    \<and> p_attempts (pump_run os gid es p) \<le> 3"
proof -
  have inv: "pump_inv gid {} p" by (rule pump_reachable_inv [OF assms(1-3)])
  have "pump_inv gid {} (pump_run os gid es p)" by (rule pump_run_inv [OF assms(2) inv])
  then show ?thesis
    using run_attempts [OF assms(2) inv assms(4)] by (simp add: pump_inv_def retry_ok_def)
qed

definition retry_events :: "pump_event list" where
  "retry_events = [Fire 1 None, Fire 2 None, Fire 3 None, Fire 4 None]"

theorem retries_bounded_witness:
  "retries refusing_os Suc retry_events refused_pump = 2
   \<and> p_attempts (pump_run refusing_os Suc retry_events refused_pump) = 3"
proof -
  have v: "unreported refusing_os Suc retry_events refused_pump"
    "retries refusing_os Suc retry_events refused_pump = 2" by code_simp+
  show ?thesis
    using retries_bounded [OF refused_reachable glib_ids_Suc no_self_test v(1)] v(2) refused_values by simp
qed

text \<open>
  What an attempt to attach leaves behind, when BlueZ says the pods are here: an open
  channel and the status saying so; or, after a failure with attempts left, exactly one new
  source, the retry with the delay of this attempt; or, after the third failure, nothing
  scheduled and a status that gives the stage, the diagnosis and that it gave up.
\<close>

theorem attach_result:
  assumes "may_attach p" and "p_session p = Some s"
  shows "case session_open os (pump_hook (o_verbose (p_opts p))) (o_mac (p_opts p)) s of (r, s') \<Rightarrow>
    (let p' = attach os gid p in
     if ok r then p_status p' = ''channel open''
     else if Suc (p_attempts p) < kMaxAttempts then
       l_live (p_loop p') = l_live (p_loop p) @ [(gid (l_added (p_loop p)), RetryTimer (kRetryMs ! p_attempts p))]
       \<and> p_retry_id p' = gid (l_added (p_loop p))
     else p_retry_id p' = 0 \<and> p_loop p' = p_loop p
       \<and> p_status p' = stage_name (reached r) @ '': '' @ diagnosis r @ '' (gave up after 3 attempts)'')"
proof -
  obtain r s' where o1: "session_open os (pump_hook (o_verbose (p_opts p))) (o_mac (p_opts p)) s = (r, s')"
    by fastforce
  have "Suc (p_attempts p) < kMaxAttempts \<or> Suc (p_attempts p) = kMaxAttempts"
    using assms(1) by (auto simp: may_attach_def)
  then show ?thesis using attach_outcome [OF assms o1, of gid] o1 by (auto simp: Let_def)
qed

definition ready_pump :: pump where
  "ready_pump = (new_pump sample_options)\<lparr>p_session := Some (new_session config_defaults),
     p_watch := Some ((new_watch ''AA:BB:CC:DD:EE:FF'')\<lparr>bw_connected := True\<rparr>), p_attempts := 2\<rparr>"

theorem attach_result_witness:
  "p_loop (attach refusing_os Suc ready_pump) = p_loop ready_pump \<and> p_retry_id (attach refusing_os Suc ready_pump) = 0"
proof -
  have m: "may_attach ready_pump" "p_session ready_pump = Some (new_session config_defaults)"
    by (auto simp: may_attach_def ready_pump_def new_session_def is_open_def new_pump_def)
  have "\<not> ok (fst (session_open refusing_os (pump_hook (o_verbose (p_opts ready_pump)))
      (o_mac (p_opts ready_pump)) (new_session config_defaults)))" "p_attempts ready_pump = 2"
    by code_simp+
  with attach_result [OF m, of refusing_os Suc] show ?thesis by (simp add: case_prod_unfold Let_def)
qed



text \<open>
  C35: Every snapshot ever published tells the truth: a component shows a percentage exactly
  when the pods reported one (not disconnected, at most 100, and then the raw byte), the keys
  are \<open>left\<close>, \<open>right\<close> and \<open>case\<close>, the channel is shown open exactly when the phase is not
  \<open>closed\<close>, and there are components only once there was a reading.
\<close>

theorem published_is_truthful:
  assumes "pump_reachable os gid op p" and "\<not> o_self_test op" and "v \<in> set (p_out p)"
  shows "list_all (\<lambda>(k, c). k \<in> {''left'', ''right'', ''case''} \<and>
        cv_level c = (if cv_status c \<noteq> ''disconnected'' \<and> cv_raw_level c \<le> 100 then Some (cv_raw_level c) else None))
      (v_components v)
    \<and> (v_channel_open v \<longleftrightarrow> v_phase v \<noteq> ''closed'') \<and> (v_have_battery v \<or> v_components v = [])"
  using pump_reachable_published [OF assms(1,2)] assms(3)
  by (auto simp: published_ok_def list_all_iff state_truthful_def view_truthful_def)

theorem published_is_truthful_witness:
  "list_all (\<lambda>(k, c). cv_level c = (if cv_status c \<noteq> ''disconnected'' \<and> cv_raw_level c \<le> 100
        then Some (cv_raw_level c) else None)) (v_components (snapshot attached_pump))
   \<and> map fst (v_components (snapshot attached_pump)) = [''case'', ''left'', ''right'']"
proof -
  have v: "snapshot attached_pump \<in> set (p_out attached_pump)"
    "map fst (v_components (snapshot attached_pump)) = [''case'', ''left'', ''right'']" by code_simp+
  from published_is_truthful [OF attached_reachable no_self_test v(1)] v(2) show ?thesis
    by (auto simp: list_all_iff)
qed



end
