(* ===== verification/Dbus_Service.thy ===== *)
theory Dbus_Service
  imports Pump_Runs
begin

text \<open>
  The session-bus face of the daemon: \<open>daemon/src/dbus_service.h\<close> and
  \<open>daemon/src/dbus_service.cpp\<close>. Variants are a datatype, and \<open>ds_out\<close> collects the
  \<open>PropertiesChanged\<close> signals handed to GIO, whose failure the code only logs. The lemmas say that the encoding of the components loses
  nothing, that a signal carries exactly the properties that changed, and that a subscriber
  that reads once and then follows the signals is always up to date.
\<close>

section \<open>Variants\<close>

datatype gvariant =
    VString string
  | VBoolean bool
  | VByte u8
  | VInt32 int
  | VInt64 int
  | VObjectPath string
  | VDict "(string \<times> gvariant) list"

section \<open>The service\<close>

text \<open>
  \<open>ds_node\<close> says whether the introspection data is held, \<open>ds_owner_id\<close> identifies the claim on
  the name (0 for none), \<open>ds_conn\<close> says whether the session bus was acquired, and \<open>ds_reg_id\<close> is
  what registering the object returned, 0 for failure.
\<close>

record dbus_service =
  ds_node :: bool
  ds_owner_id :: nat
  ds_conn :: bool
  ds_reg_id :: nat
  ds_state :: state
  ds_published :: bool
  ds_out :: "(string \<times> gvariant) list list"

definition new_service :: dbus_service where
  "new_service = \<lparr>ds_node = False, ds_owner_id = 0, ds_conn = False, ds_reg_id = 0,
     ds_state = default_state, ds_published = False, ds_out = []\<rparr>"

text \<open>
  \<open>xml\<close> is whether GIO accepts the introspection data, \<open>claim\<close> the identifier it gives the
  claim on the bus name.
\<close>

definition ds_start :: "bool \<Rightarrow> nat \<Rightarrow> dbus_service \<Rightarrow> bool \<times> dbus_service" where
  "ds_start xml claim ds =
    (if \<not> xml then (False, ds\<lparr>ds_node := False\<rparr>)
     else (True, ds\<lparr>ds_node := True, ds_owner_id := claim\<rparr>))"

definition on_bus_acquired :: "nat \<Rightarrow> dbus_service \<Rightarrow> dbus_service" where
  "on_bus_acquired reg ds = ds\<lparr>ds_conn := True, ds_reg_id := reg\<rparr>"

text \<open>The destructor releases, in this order, what is held.\<close>

datatype bus_release = UnregisterObject nat | UnownName nat | UnrefNode

definition ds_destroy :: "dbus_service \<Rightarrow> bus_release list" where
  "ds_destroy ds =
     (if ds_reg_id ds \<noteq> 0 \<and> ds_conn ds then [UnregisterObject (ds_reg_id ds)] else [])
   @ (if ds_owner_id ds \<noteq> 0 then [UnownName (ds_owner_id ds)] else [])
   @ (if ds_node ds then [UnrefNode] else [])"

subsection \<open>Properties\<close>

definition component_variant :: "component_view \<Rightarrow> gvariant" where
  "component_variant c = VDict
     ([(''Status'', VString (cv_status c))]
      @ (case cv_level c of Some l \<Rightarrow> [(''Level'', VByte l)] | None \<Rightarrow> [])
      @ [(''RawLevel'', VByte (cv_raw_level c))]
      @ (if cv_framing_anomaly c then [(''FramingAnomaly'', VBoolean True)] else []))"

definition components_variant :: "component_view smap \<Rightarrow> gvariant" where
  "components_variant m = VDict (map (\<lambda>(key, c). (key, component_variant c)) m)"

definition get_property :: "int option \<Rightarrow> state \<Rightarrow> string \<Rightarrow> gvariant option" where
  "get_property age v p =
    (if p = ''Address'' then Some (VString (v_address v))
     else if p = ''Phase'' then Some (VString (v_phase v))
     else if p = ''ChannelOpen'' then Some (VBoolean (v_channel_open v))
     else if p = ''Status'' then Some (VString (v_status v))
     else if p = ''HaveBattery'' then Some (VBoolean (v_have_battery v))
     else if p = ''ParseRefusals'' then Some (VInt32 (v_parse_refusals v))
     else if p = ''Components'' then Some (components_variant (v_components v))
     else if p = ''BatteryAgeMs'' then Some (VInt64 (case age of Some a \<Rightarrow> a | None \<Rightarrow> -1))
     else None)"

text \<open>The reply of the object: the value, or the error that names the property.\<close>

definition get_property_trampoline :: "int option \<Rightarrow> string \<Rightarrow> dbus_service \<Rightarrow> string + gvariant" where
  "get_property_trampoline age p ds =
    (case get_property age (ds_state ds) p of
       None \<Rightarrow> Inl (''no such property: '' @ p)
     | Some v \<Rightarrow> Inr v)"

subsection \<open>Publishing\<close>

text \<open>
  The \<open>add\<close> calls of \<open>publish\<close>, in order. \<open>get_property\<close> is called on one of the seven names,
  none of which reads the age.
\<close>

definition changed_keys :: "state \<Rightarrow> state \<Rightarrow> string list" where
  "changed_keys prev v =
     (if v_address prev \<noteq> v_address v then [''Address''] else [])
   @ (if v_phase prev \<noteq> v_phase v then [''Phase''] else [])
   @ (if v_channel_open prev \<noteq> v_channel_open v then [''ChannelOpen''] else [])
   @ (if v_status prev \<noteq> v_status v then [''Status''] else [])
   @ (if v_have_battery prev \<noteq> v_have_battery v then [''HaveBattery''] else [])
   @ (if v_parse_refusals prev \<noteq> v_parse_refusals v then [''ParseRefusals''] else [])
   @ (if v_components prev \<noteq> v_components v then [''Components''] else [])"

definition ds_publish :: "state \<Rightarrow> dbus_service \<Rightarrow> dbus_service" where
  "ds_publish v ds =
    (if ds_published ds \<and> v = ds_state ds then ds
     else let prev = ds_state ds; ds = ds\<lparr>ds_state := v\<rparr> in
     if \<not> ds_published ds then ds\<lparr>ds_published := True\<rparr>
     else if \<not> ds_conn ds \<or> ds_reg_id ds = 0 then ds
     else let changed = map (\<lambda>key. (key, the (get_property None v key))) (changed_keys prev v) in
     if changed = [] then ds
     else ds\<lparr>ds_out := ds_out ds @ [changed]\<rparr>)"

section \<open>The encoding of the components\<close>

fun variant_string :: "gvariant \<Rightarrow> string option" where
  "variant_string (VString t) = Some t" | "variant_string _ = None"

fun variant_byte :: "gvariant \<Rightarrow> u8 option" where
  "variant_byte (VByte b) = Some b" | "variant_byte _ = None"

text \<open>How a consumer reads a component: a missing \<open>Level\<close> is no reading.\<close>

fun read_component :: "gvariant \<Rightarrow> component_view option" where
  "read_component (VDict d) =
     (case (Option.bind (map_of d ''Status'') variant_string, Option.bind (map_of d ''RawLevel'') variant_byte) of
        (Some st, Some raw) \<Rightarrow> Some \<lparr>cv_status = st, cv_level = Option.bind (map_of d ''Level'') variant_byte,
            cv_raw_level = raw, cv_framing_anomaly = (map_of d ''FramingAnomaly'' = Some (VBoolean True))\<rparr>
      | _ \<Rightarrow> None)"
| "read_component _ = None"

fun read_entries :: "(string \<times> gvariant) list \<Rightarrow> component_view smap option" where
  "read_entries [] = Some []"
| "read_entries ((k, g) # d) =
     (case (read_component g, read_entries d) of
        (Some c, Some m) \<Rightarrow> Some ((k, c) # m)
      | _ \<Rightarrow> None)"

fun read_components :: "gvariant \<Rightarrow> component_view smap option" where
  "read_components (VDict d) = read_entries d"
| "read_components _ = None"

lemma read_component_variant [simp]: "read_component (component_variant c) = Some c"
  by (cases c) (auto simp: component_variant_def split: option.split)

lemma read_components_variant: "read_components (components_variant m) = Some m"
  by (induction m) (auto simp: components_variant_def)

interpretation bus_component: codec component_variant read_component "\<lambda>_. True"
  by unfold_locales simp

interpretation bus_components: codec components_variant read_components "\<lambda>_. True"
  by unfold_locales (rule read_components_variant)

text \<open>The three answers the wire must keep apart.\<close>

definition wire_level :: "gvariant \<Rightarrow> string \<Rightarrow> gvariant option option" where
  "wire_level g k =
     (case g of
        VDict d \<Rightarrow> (case map_of d k of Some (VDict inner) \<Rightarrow> Some (map_of inner ''Level'') | _ \<Rightarrow> None)
      | _ \<Rightarrow> None)"

lemma map_of_map_snd: "map_of (map (\<lambda>(k, c). (k, f c)) m) k = map_option f (map_of m k)"
  by (induction m) auto

lemma wire_level_components:
  "wire_level (components_variant m) k = map_option (\<lambda>c. map_option VByte (cv_level c)) (map_of m k)"
  by (cases "map_of m k")
    (auto simp: wire_level_def components_variant_def map_of_map_snd component_variant_def split: option.split)

section \<open>Signals\<close>

text \<open>The properties the interface signals; \<open>BatteryAgeMs\<close> is not one of them.\<close>

definition signalled :: "string list" where
  "signalled = [''Address'', ''Phase'', ''ChannelOpen'', ''Status'', ''HaveBattery'', ''ParseRefusals'', ''Components'']"

lemma get_property_inj:
  "get_property age v ''Address'' = get_property age w ''Address'' \<longleftrightarrow> v_address v = v_address w"
  "get_property age v ''Phase'' = get_property age w ''Phase'' \<longleftrightarrow> v_phase v = v_phase w"
  "get_property age v ''ChannelOpen'' = get_property age w ''ChannelOpen'' \<longleftrightarrow> v_channel_open v = v_channel_open w"
  "get_property age v ''Status'' = get_property age w ''Status'' \<longleftrightarrow> v_status v = v_status w"
  "get_property age v ''HaveBattery'' = get_property age w ''HaveBattery'' \<longleftrightarrow> v_have_battery v = v_have_battery w"
  "get_property age v ''ParseRefusals'' = get_property age w ''ParseRefusals'' \<longleftrightarrow> v_parse_refusals v = v_parse_refusals w"
  "get_property age v ''Components'' = get_property age w ''Components'' \<longleftrightarrow> v_components v = v_components w"
  using bus_components.encode_inject by (simp_all add: get_property_def)

lemma changed_keys_filter:
  "changed_keys v w = filter (\<lambda>k. get_property age v k \<noteq> get_property age w k) signalled"
  by (simp add: changed_keys_def signalled_def get_property_inj)

lemma changed_keys_Nil: "changed_keys v w = [] \<longleftrightarrow> v = w"
  by (cases v; cases w) (auto simp: changed_keys_def split: if_splits)

lemma get_property_age: "k \<in> set signalled \<Longrightarrow> get_property age v k = get_property None v k"
  by (auto simp: signalled_def get_property_def)

lemma get_property_signalled: "k \<in> set signalled \<Longrightarrow> \<exists>g. get_property age v k = Some g"
  by (auto simp: signalled_def get_property_def)

text \<open>What a client that reads every signalled property sees, and what a signal does to it.\<close>

definition bus_view :: "state \<Rightarrow> string \<Rightarrow> gvariant option" where
  "bus_view v k = (if k \<in> set signalled then get_property None v k else None)"

definition apply_signal :: "(string \<times> gvariant) list \<Rightarrow> (string \<Rightarrow> gvariant option) \<Rightarrow> string \<Rightarrow> gvariant option" where
  "apply_signal sig m = m ++ map_of sig"

definition signal_for :: "state \<Rightarrow> state \<Rightarrow> (string \<times> gvariant) list" where
  "signal_for prev v = map (\<lambda>key. (key, the (get_property None v key))) (changed_keys prev v)"

lemma map_of_keys: "map_of (map (\<lambda>k. (k, f k)) ks) k = (if k \<in> set ks then Some (f k) else None)"
  by (induction ks) auto

lemma signal_for_updates: "apply_signal (signal_for v w) (bus_view v) = bus_view w"
proof
  fix k
  have "map_of (signal_for v w) k = (if k \<in> set (changed_keys v w) then get_property None w k else None)"
    using get_property_signalled [of k None w]
    by (auto simp: signal_for_def map_of_keys changed_keys_filter [of v w None])
  then show "apply_signal (signal_for v w) (bus_view v) k = bus_view w k"
    using get_property_signalled [of k None w]
    by (auto simp: apply_signal_def bus_view_def changed_keys_filter [of v w None] map_add_def split: option.split)
qed

definition exported :: "dbus_service \<Rightarrow> bool" where
  "exported ds \<longleftrightarrow> ds_conn ds \<and> ds_reg_id ds \<noteq> 0"

lemma ds_publish_out:
  "ds_out (ds_publish v ds) =
     ds_out ds @ (if ds_published ds \<and> exported ds \<and> v \<noteq> ds_state ds then [signal_for (ds_state ds) v] else [])"
  using changed_keys_Nil [of "ds_state ds" v]
  by (auto simp: ds_publish_def exported_def signal_for_def Let_def)

lemma ds_publish_sels [simp]:
  "ds_state (ds_publish v ds) = v" "ds_published (ds_publish v ds)"
  "ds_conn (ds_publish v ds) = ds_conn ds" "ds_reg_id (ds_publish v ds) = ds_reg_id ds"
  "exported (ds_publish v ds) = exported ds"
  by (auto simp: ds_publish_def Let_def exported_def)

text \<open>What the service holds until it is destroyed: its introspection data and its name.\<close>

definition ds_held :: "dbus_service \<Rightarrow> bool \<times> nat" where
  "ds_held ds = (ds_node ds, ds_owner_id ds)"

lemma ds_held_ops [simp]:
  "ds_held (ds_publish v ds) = ds_held ds" "ds_held (on_bus_acquired reg ds) = ds_held ds"
  "ds_held (snd (ds_start True claim ds)) = (True, claim)"
  by (simp_all add: ds_held_def ds_publish_def Let_def on_bus_acquired_def ds_start_def)

lemma ds_held_fold [simp]: "ds_held (fold ds_publish vs ds) = ds_held ds"
  by (induction vs arbitrary: ds) simp_all

text \<open>The service is a publisher in the pump's sense.\<close>

definition on_bus :: "dbus_service \<Rightarrow> state option" where
  "on_bus ds = (if ds_published ds then Some (ds_state ds) else None)"

interpretation bus: publisher ds_publish on_bus
  by unfold_locales (simp add: on_bus_def)

text \<open>The signals of a stretch of publishing bring a subscriber from its start to its end.\<close>

lemma ds_publish_signals:
  "ds_published ds \<Longrightarrow> exported ds \<Longrightarrow>
   \<exists>sigs. ds_out (fold ds_publish vs ds) = ds_out ds @ sigs \<and> [] \<notin> set sigs
     \<and> fold apply_signal sigs (bus_view (ds_state ds)) = bus_view (ds_state (fold ds_publish vs ds))"
proof (induction vs arbitrary: ds)
  case Nil
  then show ?case by simp
next
  case (Cons v vs)
  obtain sigs where sigs: "ds_out (fold ds_publish vs (ds_publish v ds)) = ds_out (ds_publish v ds) @ sigs"
    "[] \<notin> set sigs"
    "fold apply_signal sigs (bus_view v) = bus_view (ds_state (fold ds_publish vs (ds_publish v ds)))"
    using Cons.IH [of "ds_publish v ds"] Cons.prems by auto
  show ?case
  proof (cases "v = ds_state ds")
    case True
    with sigs Cons.prems show ?thesis by (intro exI [of _ sigs]) (simp add: ds_publish_out)
  next
    case False
    have "signal_for (ds_state ds) v \<noteq> []"
      using False changed_keys_Nil [of "ds_state ds" v] by (simp add: signal_for_def)
    with sigs Cons.prems False show ?thesis
      by (intro exI [of _ "signal_for (ds_state ds) v # sigs"]) (simp add: ds_publish_out signal_for_updates)
  qed
qed

section \<open>Properties\<close>

text \<open>
  The encoding of the components on the bus loses nothing: a consumer can rebuild every
  component from it, and the three answers stay apart (component absent from the packet,
  present but unreadable, readable): there is a \<open>Level\<close> key exactly when there is a level.
\<close>

theorem wire_keeps_components:
  "read_components (components_variant m) = Some m
   \<and> wire_level (components_variant m) k = map_option (\<lambda>c. map_option VByte (cv_level c)) (map_of m k)"
  by (simp add: read_components_variant wire_level_components)

text \<open>
  Publishing emits one \<open>PropertiesChanged\<close> when the object is exported, something was
  published before and the snapshot differs, and none otherwise. It carries exactly the
  properties whose value a client would read differently, in the order of the interface and
  with the new values, and never the battery age.
\<close>

theorem signal_exactly_changed:
  "ds_out (ds_publish v ds) = ds_out ds @
     (if ds_published ds \<and> exported ds \<and> v \<noteq> ds_state ds
      then [map (\<lambda>k. (k, the (get_property age v k)))
              (filter (\<lambda>k. get_property age (ds_state ds) k \<noteq> get_property age v k) signalled)]
      else [])"
  using get_property_age [of _ age v]
  by (auto simp: ds_publish_out signal_for_def changed_keys_filter [of "ds_state ds" v age]
      intro!: map_cong)

text \<open>
  C13: A subscriber that reads all properties once the object is exported and then applies the
  signals always holds what reading again would give, and no signal it gets is empty.
\<close>

theorem subscriber_up_to_date:
  assumes "ds_published ds" and "exported ds"
  shows "\<exists>sigs. ds_out (fold ds_publish vs ds) = ds_out ds @ sigs \<and> [] \<notin> set sigs
    \<and> fold apply_signal sigs (bus_view (ds_state ds)) = bus_view (ds_state (fold ds_publish vs ds))"
  by (rule ds_publish_signals [OF assms])

definition running_service :: dbus_service where
  "running_service = ds_publish (snapshot refused_pump) (on_bus_acquired 3 new_service)"

theorem subscriber_up_to_date_witness:
  "\<exists>sig. ds_out (ds_publish (snapshot attached_pump) running_service) = [sig]
     \<and> apply_signal sig (bus_view (snapshot refused_pump)) = bus_view (snapshot attached_pump)"
proof -
  have r: "ds_published running_service" "exported running_service"
    "ds_out running_service = []" "ds_state running_service = snapshot refused_pump"
    by (simp_all add: running_service_def exported_def on_bus_acquired_def ds_publish_def new_service_def Let_def)
  have "snapshot attached_pump \<noteq> snapshot refused_pump" by code_simp
  then have "length (ds_out (ds_publish (snapshot attached_pump) running_service)) = 1"
    by (simp add: ds_publish_out r)
  moreover obtain sigs where "ds_out (ds_publish (snapshot attached_pump) running_service) = sigs"
    "fold apply_signal sigs (bus_view (snapshot refused_pump)) = bus_view (snapshot attached_pump)"
    using subscriber_up_to_date [OF r(1,2), of "[snapshot attached_pump]"] r(3,4) by auto
  ultimately show ?thesis by (auto simp: length_Suc_conv)
qed

end
