(* ===== verification/Battery_Provider.thy ===== *)
theory Battery_Provider
  imports Dbus_Service
begin

text \<open>
  The BlueZ battery provider: \<open>daemon/src/battery_provider.h\<close> and
  \<open>daemon/src/battery_provider.cpp\<close>. BlueZ's answers (its object tree, whether a registration
  is accepted, the identifier of an exported object) are inputs; the signals and calls the
  provider makes are collected in \<open>bp_out\<close>. The lemmas say what number is derived, that it does
  not depend on which pod is left, when the battery object exists, and that what BlueZ can
  reconstruct from the signals is what the provider would answer.
\<close>

section \<open>State\<close>

type_synonym properties = "(string \<times> gvariant) list"

datatype provider_signal =
    InterfacesAdded string properties
  | InterfacesRemoved string
  | ProviderPropertiesChanged string properties
  | RegisterBatteryProvider string string
  | UnregisterBatteryProvider string string

record provider =
  bp_mac :: string
  bp_root :: string
  bp_object :: string
  bp_sys :: bool
  bp_om_reg :: nat
  bp_battery_reg :: nat
  bp_adapter :: string
  bp_device :: string
  bp_registered :: bool
  bp_exported :: bool
  bp_percentage :: u8
  bp_source :: string
  bp_out :: "provider_signal list"

definition kProviderRoot :: string where
  "kProviderRoot = ''/io/github/scott8420/Airprobe/battery''"

definition dev_leaf :: "string \<Rightarrow> string" where
  "dev_leaf mac = ''dev_'' @ map (\<lambda>c. if c = CHR '':'' then CHR ''_'' else c) mac"

definition new_provider :: "string \<Rightarrow> provider" where
  "new_provider mac = \<lparr>bp_mac = upper mac, bp_root = kProviderRoot,
     bp_object = kProviderRoot @ ''/'' @ dev_leaf (upper (upper mac)),
     bp_sys = False, bp_om_reg = 0, bp_battery_reg = 0, bp_adapter = '''', bp_device = '''',
     bp_registered = False, bp_exported = False, bp_percentage = 0, bp_source = '''', bp_out = []\<rparr>"

section \<open>Registration\<close>

text \<open>The introspection data is constant; \<open>bus\<close> and \<open>reg\<close> are the two calls that can fail.\<close>

definition bp_start :: "bool \<Rightarrow> nat \<Rightarrow> provider \<Rightarrow> bool \<times> provider" where
  "bp_start bus reg p =
    (if \<not> bus then (False, p)
     else let p = p\<lparr>bp_sys := True, bp_om_reg := reg\<rparr> in
     if bp_om_reg p = 0 then (False, p) else (True, p))"

fun resolve_loop :: "string \<Rightarrow> managed \<Rightarrow> string \<times> string \<Rightarrow> string \<times> string" where
  "resolve_loop mac [] found = found"
| "resolve_loop mac ((obj_path, ifaces) # rest) (adapter, device) =
    (let adapter = (if adapter = '''' \<and> obj_manager ifaces then obj_path else adapter);
         device = (if device = ''''
                   then (case obj_device ifaces of
                           Some dev \<Rightarrow> (case dev_address dev of
                               Some addr \<Rightarrow> if upper addr = mac then obj_path else device
                             | None \<Rightarrow> device)
                         | None \<Rightarrow> device)
                   else device)
     in resolve_loop mac rest (adapter, device))"

definition resolve_paths :: "managed option \<Rightarrow> provider \<Rightarrow> bool \<times> provider" where
  "resolve_paths reply p =
    (case reply of
       None \<Rightarrow> (False, p)
     | Some objects \<Rightarrow>
         let (adapter, device) = resolve_loop (bp_mac p) objects ('''', '''');
             p = p\<lparr>bp_adapter := adapter, bp_device := device\<rparr>
         in (bp_adapter p \<noteq> '''', p))"

definition register_with_bluez :: "managed option \<Rightarrow> provider \<Rightarrow> provider" where
  "register_with_bluez reply p =
    (if bp_registered p then p
     else let (found, p) = resolve_paths reply p in
     if \<not> found then p
     else p\<lparr>bp_out := bp_out p @ [RegisterBatteryProvider (bp_adapter p) (bp_root p)]\<rparr>)"

definition on_register_done :: "bool \<Rightarrow> provider \<Rightarrow> provider" where
  "on_register_done accepted p = (if \<not> accepted then p else p\<lparr>bp_registered := True\<rparr>)"

definition unregister_from_bluez :: "provider \<Rightarrow> provider" where
  "unregister_from_bluez p =
    (if bp_adapter p = '''' then p
     else p\<lparr>bp_out := bp_out p @ [UnregisterBatteryProvider (bp_adapter p) (bp_root p)],
            bp_registered := False\<rparr>)"

definition on_bluez_vanished :: "provider \<Rightarrow> provider" where
  "on_bluez_vanished p =
    (let p = p\<lparr>bp_registered := False, bp_adapter := '''', bp_device := '''', bp_exported := False\<rparr> in
     if bp_battery_reg p \<noteq> 0 then p\<lparr>bp_battery_reg := 0\<rparr> else p)"

section \<open>The number\<close>

definition derive_percentage :: "state \<Rightarrow> u8 option" where
  "derive_percentage v =
     foldl (\<lambda>best key. case map_of (v_components v) key of
              None \<Rightarrow> best
            | Some c \<Rightarrow> (case cv_level c of
                None \<Rightarrow> best
              | Some l \<Rightarrow> (case best of None \<Rightarrow> Some l | Some b \<Rightarrow> if l < b then Some l else best)))
       None [''left'', ''right'']"

definition derive_source :: "state \<Rightarrow> string" where
  "derive_source v =
     fst (foldl (\<lambda>(out, sep) (key, label). case map_of (v_components v) key of
              None \<Rightarrow> (out, sep)
            | Some c \<Rightarrow> (out @ sep @ label @ '' ''
                         @ (case cv_level c of Some l \<Rightarrow> fmt_u (unat l) @ ''%'' | None \<Rightarrow> ''--''), '', ''))
       (''AAP at connect'', '' -- '') [(''left'', ''L''), (''right'', ''R''), (''case'', ''case'')])"

section \<open>Exporting\<close>

definition battery_properties :: "provider \<Rightarrow> properties" where
  "battery_properties p = [(''Device'', VObjectPath (bp_device p)), (''Percentage'', VByte (bp_percentage p)),
                           (''Source'', VString (bp_source p))]"

text \<open>The method call: the objects, or an error for any other method.\<close>

definition om_method_call :: "string \<Rightarrow> provider \<Rightarrow> (string \<times> properties) list option" where
  "om_method_call method p =
    (if method \<noteq> ''GetManagedObjects'' then None
     else Some (if bp_exported p then [(bp_object p, battery_properties p)] else []))"

definition battery_get_property :: "string \<Rightarrow> provider \<Rightarrow> gvariant option" where
  "battery_get_property name p =
    (if name = ''Device'' then Some (VObjectPath (bp_device p))
     else if name = ''Percentage'' then Some (VByte (bp_percentage p))
     else if name = ''Source'' then Some (VString (bp_source p))
     else None)"

definition add_object :: "nat \<Rightarrow> provider \<Rightarrow> provider" where
  "add_object reg p =
    (if bp_exported p then p
     else let p = p\<lparr>bp_battery_reg := reg\<rparr> in
     if bp_battery_reg p = 0 then p
     else p\<lparr>bp_out := bp_out p @ [InterfacesAdded (bp_object p) (battery_properties p)], bp_exported := True\<rparr>)"

definition remove_object :: "provider \<Rightarrow> provider" where
  "remove_object p =
    (if \<not> bp_exported p then p
     else let p = p\<lparr>bp_out := bp_out p @ [InterfacesRemoved (bp_object p)]\<rparr>;
              p = (if bp_battery_reg p \<noteq> 0 then p\<lparr>bp_battery_reg := 0\<rparr> else p)
          in p\<lparr>bp_exported := False\<rparr>)"

definition emit_properties_changed :: "provider \<Rightarrow> provider" where
  "emit_properties_changed p =
     p\<lparr>bp_out := bp_out p @ [ProviderPropertiesChanged (bp_object p) (battery_properties p)]\<rparr>"

definition bp_publish :: "managed option \<Rightarrow> nat \<Rightarrow> state \<Rightarrow> provider \<Rightarrow> provider" where
  "bp_publish reply reg v p =
    (if \<not> bp_sys p \<or> bp_om_reg p = 0 then p
     else if \<not> bp_registered p then p
     else let p = (if bp_device p = '''' then snd (resolve_paths reply p) else p);
              pct = derive_percentage v in
     if \<not> v_channel_open v \<or> pct = None \<or> bp_device p = '''' then remove_object p
     else let src = derive_source v;
              changed = (the pct \<noteq> bp_percentage p \<or> src \<noteq> bp_source p);
              p = p\<lparr>bp_percentage := the pct, bp_source := src\<rparr> in
     if \<not> bp_exported p then add_object reg p
     else if changed then emit_properties_changed p
     else p)"

definition bp_destroy :: "provider \<Rightarrow> provider" where
  "bp_destroy p =
    (if \<not> bp_sys p then p
     else let p = (if bp_registered p then unregister_from_bluez p else p) in
       p\<lparr>bp_battery_reg := 0, bp_om_reg := 0\<rparr>)"

section \<open>What the number is\<close>

text \<open>The levels of the pods that gave a reading; the case is not a pod.\<close>

definition pod_level :: "state \<Rightarrow> string \<Rightarrow> u8 option" where
  "pod_level v key = Option.bind (map_of (v_components v) key) cv_level"

definition pod_levels :: "state \<Rightarrow> u8 set" where
  "pod_levels v = set_option (pod_level v ''left'') \<union> set_option (pod_level v ''right'')"

lemma derive_percentage_pods:
  "derive_percentage v =
    (case (pod_level v ''left'', pod_level v ''right'') of
       (None, r) \<Rightarrow> r
     | (l, None) \<Rightarrow> l
     | (Some l, Some r) \<Rightarrow> Some (if r < l then r else l))"
  by (auto simp: derive_percentage_def pod_level_def split: option.splits)

lemma derive_percentage_Min:
  "derive_percentage v = (if pod_levels v = {} then None else Some (Min (pod_levels v)))"
  by (cases "pod_level v ''left''"; cases "pod_level v ''right''")
    (auto simp: derive_percentage_pods pod_levels_def min_def)

text \<open>Exchanging the pods.\<close>

definition swap_key :: "string \<Rightarrow> string" where
  "swap_key k = (if k = ''left'' then ''right'' else if k = ''right'' then ''left'' else k)"

definition swap_pods :: "state \<Rightarrow> state" where
  "swap_pods v = v\<lparr>v_components := foldr (\<lambda>(k, c) m. smap_insert (swap_key k) c m) (v_components v) []\<rparr>"

lemma swap_key_involution [simp]: "swap_key (swap_key k) = k"
  by (simp add: swap_key_def)

lemma map_of_swapped:
  "map_of (foldr (\<lambda>(k, c) m. smap_insert (swap_key k) c m) cs []) k = map_of cs (swap_key k)"
proof (induction cs)
  case Nil
  then show ?case by simp
next
  case (Cons a cs)
  obtain k' c where a: "a = (k', c)" by (cases a)
  have "swap_key k' = k \<longleftrightarrow> k' = swap_key k" by (metis swap_key_involution)
  with Cons show ?case by (auto simp: a)
qed

lemma swapped_lookup: "map_of (v_components (swap_pods v)) k = map_of (v_components v) (swap_key k)"
  by (simp add: swap_pods_def map_of_swapped)

lemma pod_level_swap: "pod_level (swap_pods v) k = pod_level v (swap_key k)"
  by (simp add: pod_level_def swap_pods_def map_of_swapped)

lemma pod_levels_swap: "pod_levels (swap_pods v) = pod_levels v"
  by (auto simp: pod_levels_def pod_level_swap swap_key_def)

lemma pod_level_truthful: "state_truthful v \<Longrightarrow> pod_level v k = Some l \<Longrightarrow> l \<le> 100"
proof -
  assume v: "state_truthful v" and "pod_level v k = Some l"
  then obtain c where c: "(k, c) \<in> set (v_components v)" "cv_level c = Some l"
    by (auto simp: pod_level_def bind_eq_Some_conv dest: map_of_SomeD)
  have "view_truthful c" using v c(1) by (auto simp: state_truthful_def list_all_iff)
  with c(2) show ?thesis by (auto simp: view_truthful_def split: if_splits)
qed

section \<open>When the battery object exists\<close>

text \<open>
  Announced means registered, on a device BlueZ knows, and exported on the bus. Only then.
\<close>

definition provider_inv :: "provider \<Rightarrow> bool" where
  "provider_inv p \<longleftrightarrow>
     (bp_exported p \<longleftrightarrow> bp_battery_reg p \<noteq> 0) \<and>
     (bp_exported p \<longrightarrow> bp_registered p \<and> bp_device p \<noteq> '''')"

datatype provider_event =
    BpAppeared "managed option"
  | BpVanished
  | BpRegisterDone bool
  | BpPublish "managed option" nat state

fun bp_handle :: "provider_event \<Rightarrow> provider \<Rightarrow> provider" where
  "bp_handle (BpAppeared reply) p = register_with_bluez reply p"
| "bp_handle BpVanished p = on_bluez_vanished p"
| "bp_handle (BpRegisterDone accepted) p = on_register_done accepted p"
| "bp_handle (BpPublish reply reg v) p = bp_publish reply reg v p"

lemma resolve_paths_sels [simp]:
  "bp_exported (snd (resolve_paths reply p)) = bp_exported p"
  "bp_battery_reg (snd (resolve_paths reply p)) = bp_battery_reg p"
  "bp_registered (snd (resolve_paths reply p)) = bp_registered p"
  "bp_out (snd (resolve_paths reply p)) = bp_out p"
  "bp_object (snd (resolve_paths reply p)) = bp_object p"
  "bp_mac (snd (resolve_paths reply p)) = bp_mac p"
  "bp_percentage (snd (resolve_paths reply p)) = bp_percentage p"
  "bp_source (snd (resolve_paths reply p)) = bp_source p"
  "bp_sys (snd (resolve_paths reply p)) = bp_sys p"
  "bp_om_reg (snd (resolve_paths reply p)) = bp_om_reg p"
  by (simp_all add: resolve_paths_def case_prod_unfold Let_def split: option.split)

lemma provider_inv_new: "provider_inv (snd (bp_start bus reg (new_provider mac)))"
  by (simp add: provider_inv_def bp_start_def new_provider_def Let_def)

lemma provider_inv_publish: "provider_inv p \<Longrightarrow> provider_inv (bp_publish reply reg v p)"
  by (auto simp: provider_inv_def bp_publish_def add_object_def remove_object_def
      emit_properties_changed_def Let_def)

lemma provider_inv_handle: "provider_inv p \<Longrightarrow> provider_inv (bp_handle e p)"
  by (cases e)
    (auto simp: provider_inv_publish register_with_bluez_def case_prod_unfold Let_def on_register_done_def
      on_bluez_vanished_def, auto simp: provider_inv_def)

interpretation provider_events: event_handler bp_handle provider_inv
  by unfold_locales (rule provider_inv_handle)

text \<open>After a publish, the object exists exactly when a current reading can be shown.\<close>

definition provider_ready :: "provider \<Rightarrow> bool" where
  "provider_ready p \<longleftrightarrow> bp_sys p \<and> bp_om_reg p \<noteq> 0 \<and> bp_registered p"

definition showable :: "state \<Rightarrow> bool" where
  "showable v \<longleftrightarrow> v_channel_open v \<and> pod_levels v \<noteq> {}"

lemma derive_None: "derive_percentage v = None \<longleftrightarrow> pod_levels v = {}"
  by (simp add: derive_percentage_Min)

text \<open>What a publish does to a ready provider, with the number in its place.\<close>

definition located :: "managed option \<Rightarrow> provider \<Rightarrow> provider" where
  "located reply p = (if bp_device p = '''' then snd (resolve_paths reply p) else p)"

lemma bp_publish_ready:
  assumes "provider_ready p"
  shows "bp_publish reply reg v p =
    (let q = located reply p in
     if \<not> showable v \<or> bp_device q = '''' then remove_object q
     else let q' = q\<lparr>bp_percentage := Min (pod_levels v), bp_source := derive_source v\<rparr> in
     if \<not> bp_exported q then add_object reg q'
     else if Min (pod_levels v) \<noteq> bp_percentage q \<or> derive_source v \<noteq> bp_source q
     then emit_properties_changed q' else q')"
  using assms by (simp add: bp_publish_def provider_ready_def showable_def derive_percentage_Min
      located_def Let_def)

lemma located_sels [simp]:
  "bp_exported (located reply p) = bp_exported p" "bp_registered (located reply p) = bp_registered p"
  "bp_battery_reg (located reply p) = bp_battery_reg p" "bp_out (located reply p) = bp_out p"
  "bp_percentage (located reply p) = bp_percentage p" "bp_source (located reply p) = bp_source p"
  by (simp_all add: located_def)

lemma located_known: "bp_device p \<noteq> '''' \<Longrightarrow> located reply p = p"
  by (simp add: located_def)

lemma add_object_sels [simp]:
  "bp_percentage (add_object reg p) = bp_percentage p" "bp_source (add_object reg p) = bp_source p"
  "bp_device (add_object reg p) = bp_device p"
  "bp_exported (add_object reg p) = (bp_exported p \<or> reg \<noteq> 0)"
  by (simp_all add: add_object_def Let_def)

lemma remove_object_sels [simp]: "\<not> bp_exported (remove_object p)"
  by (simp add: remove_object_def Let_def)

lemma emit_properties_changed_sels [simp]:
  "bp_percentage (emit_properties_changed p) = bp_percentage p"
  "bp_source (emit_properties_changed p) = bp_source p"
  "bp_exported (emit_properties_changed p) = bp_exported p"
  by (simp_all add: emit_properties_changed_def)

lemma bp_publish_withdraws:
  "provider_ready p \<Longrightarrow> \<not> showable v \<Longrightarrow> \<not> bp_exported (bp_publish reply reg v p)"
  by (simp add: bp_publish_ready Let_def)

lemma bp_publish_shows:
  assumes "provider_ready p" "bp_exported (bp_publish reply reg v p)"
  shows "showable v" "bp_percentage (bp_publish reply reg v p) = Min (pod_levels v)"
    and "bp_source (bp_publish reply reg v p) = derive_source v"
proof -
  let ?q = "located reply p"
  let ?q' = "?q\<lparr>bp_percentage := Min (pod_levels v), bp_source := derive_source v\<rparr>"
  have s: "showable v \<and> bp_device ?q \<noteq> ''''"
  proof (rule ccontr)
    assume "\<not> (showable v \<and> bp_device ?q \<noteq> '''')"
    then have "bp_publish reply reg v p = remove_object ?q"
      by (simp add: bp_publish_ready [OF assms(1)])
    with assms(2) show False by simp
  qed
  then have "bp_publish reply reg v p \<in> {add_object reg ?q', emit_properties_changed ?q', ?q'}"
    by (auto simp: bp_publish_ready [OF assms(1)] Let_def)
  then show "bp_percentage (bp_publish reply reg v p) = Min (pod_levels v)"
    "bp_source (bp_publish reply reg v p) = derive_source v" by auto
  show "showable v" using s by simp
qed


lemma bp_publish_exports:
  assumes "provider_ready p" "showable v" "reg \<noteq> 0"
    and "bp_device p \<noteq> '''' \<or> (\<exists>objs. reply = Some objs \<and> snd (resolve_loop (bp_mac p) objs ('''', '''')) \<noteq> '''')"
  shows "bp_exported (bp_publish reply reg v p)"
proof -
  have "bp_device (located reply p) \<noteq> ''''"
    using assms(4) by (cases "bp_device p = ''''")
      (auto simp: located_def resolve_paths_def case_prod_unfold Let_def)
  then show ?thesis using assms(2,3) by (simp add: bp_publish_ready [OF assms(1)] Let_def)
qed

section \<open>What BlueZ knows\<close>

text \<open>
  \<open>bluetoothd\<close> keeps a tree of the provider's objects: what it read when it was given the
  provider, changed by every signal, and forgotten when it goes away. \<open>object_tree\<close> is what
  the provider would answer.
\<close>

type_synonym tree = "string \<Rightarrow> properties option"

fun sees :: "provider_signal \<Rightarrow> tree \<Rightarrow> tree" where
  "sees (InterfacesAdded obj props) m = m(obj \<mapsto> props)"
| "sees (InterfacesRemoved obj) m = m(obj := None)"
| "sees (ProviderPropertiesChanged obj props) m = (if m obj = None then m else m(obj \<mapsto> props))"
| "sees (RegisterBatteryProvider _ _) m = m"
| "sees (UnregisterBatteryProvider _ _) m = m"

definition object_tree :: "provider \<Rightarrow> tree" where
  "object_tree p = map_of (the (om_method_call ''GetManagedObjects'' p))"

definition tree_after :: "provider_event \<Rightarrow> provider \<Rightarrow> tree \<Rightarrow> tree" where
  "tree_after e p m =
     (if e = BpVanished then Map.empty
      else fold sees (drop (length (bp_out p)) (bp_out (bp_handle e p))) m)"

fun bluez_tree :: "provider_event list \<Rightarrow> provider \<Rightarrow> tree \<Rightarrow> tree" where
  "bluez_tree [] p m = m"
| "bluez_tree (e # es) p m = bluez_tree es (bp_handle e p) (tree_after e p m)"

lemma object_tree_eq:
  "object_tree p = (if bp_exported p then [bp_object p \<mapsto> battery_properties p] else Map.empty)"
  by (simp add: object_tree_def om_method_call_def)

lemma battery_properties_cong:
  "bp_device p = bp_device q \<Longrightarrow> bp_percentage p = bp_percentage q \<Longrightarrow> bp_source p = bp_source q \<Longrightarrow>
   battery_properties p = battery_properties q"
  by (simp add: battery_properties_def)

lemma battery_properties_other [simp]:
  "battery_properties (p\<lparr>bp_out := x\<rparr>) = battery_properties p"
  "battery_properties (p\<lparr>bp_exported := b\<rparr>) = battery_properties p"
  "battery_properties (p\<lparr>bp_battery_reg := n\<rparr>) = battery_properties p"
  "battery_properties (p\<lparr>bp_registered := r\<rparr>) = battery_properties p"
  by (simp_all add: battery_properties_def)

text \<open>What each signal-emitting operation tells BlueZ.\<close>

lemma add_object_seen:
  assumes "\<not> bp_exported p"
  shows "fold sees (drop (length (bp_out p)) (bp_out (add_object reg p))) Map.empty = object_tree (add_object reg p)"
  using assms by (auto simp: add_object_def object_tree_eq Let_def)

lemma remove_object_seen:
  "fold sees (drop (length (bp_out p)) (bp_out (remove_object p))) (object_tree p) = object_tree (remove_object p)"
  by (auto simp: remove_object_def object_tree_eq Let_def)

lemma emit_properties_changed_seen:
  assumes "bp_exported p"
  shows "fold sees (drop (length (bp_out p)) (bp_out (emit_properties_changed p))) [bp_object p \<mapsto> props]
       = object_tree (emit_properties_changed p)"
  using assms by (simp add: emit_properties_changed_def object_tree_eq)

lemma publish_seen:
  assumes inv: "provider_inv p"
  shows "fold sees (drop (length (bp_out p)) (bp_out (bp_publish reply reg v p))) (object_tree p)
       = object_tree (bp_publish reply reg v p)"
proof (cases "provider_ready p")
  case False
  then have "bp_publish reply reg v p = p" by (auto simp: bp_publish_def provider_ready_def)
  then show ?thesis by simp
next
  case True
  define q where "q = located reply p"
  define q' where "q' = q\<lparr>bp_percentage := Min (pod_levels v), bp_source := derive_source v\<rparr>"
  have out: "bp_out q = bp_out p" "bp_out q' = bp_out p" by (simp_all add: q_def q'_def)
  have tree: "object_tree q = object_tree p"
    using inv by (cases "bp_exported p") (auto simp: q_def object_tree_eq provider_inv_def located_known)
  have P: "bp_publish reply reg v p =
      (if \<not> showable v \<or> bp_device q = '''' then remove_object q
       else if \<not> bp_exported q then add_object reg q'
       else if Min (pod_levels v) \<noteq> bp_percentage q \<or> derive_source v \<noteq> bp_source q
       then emit_properties_changed q' else q')"
    by (simp add: bp_publish_ready [OF True] q_def q'_def Let_def)
  consider "\<not> showable v \<or> bp_device q = ''''" | "showable v" "bp_device q \<noteq> ''''" "\<not> bp_exported q"
    | "showable v" "bp_device q \<noteq> ''''" "bp_exported q" by blast
  then show ?thesis
  proof cases
    case 1
    then show ?thesis using remove_object_seen [of q] tree out by (simp add: P)
  next
    case 2
    then have "object_tree p = Map.empty" "\<not> bp_exported q'" using tree by (simp_all add: object_tree_eq q'_def)
    then show ?thesis using 2 add_object_seen [of q' reg] out by (simp add: P)
  next
    case 3
    show ?thesis
    proof (cases "Min (pod_levels v) \<noteq> bp_percentage q \<or> derive_source v \<noteq> bp_source q")
      case True
      have "bp_exported q'" "object_tree p = [bp_object q' \<mapsto> battery_properties q]"
        unfolding tree [symmetric] using 3 by (simp_all add: q'_def object_tree_eq)
      then show ?thesis
        using 3 True emit_properties_changed_seen [of q'] out by (simp add: P)
    next
      case False
      then have "object_tree q' = object_tree q"
        by (auto simp: object_tree_eq q'_def intro: battery_properties_cong)
      with 3 False out tree show ?thesis by (simp add: P)
    qed
  qed
qed

lemma tree_after_handle:
  assumes inv: "provider_inv p"
  shows "tree_after e p (object_tree p) = object_tree (bp_handle e p)"
proof (cases e)
  case (BpAppeared reply)
  show ?thesis
  proof (cases "bp_registered p")
    case True
    then show ?thesis using BpAppeared by (simp add: tree_after_def register_with_bluez_def)
  next
    case False
    then have "\<not> bp_exported p" using inv by (auto simp: provider_inv_def)
    then show ?thesis using BpAppeared
      by (auto simp: tree_after_def register_with_bluez_def object_tree_eq case_prod_unfold Let_def)
  qed
next
  case BpVanished
  then show ?thesis by (simp add: tree_after_def on_bluez_vanished_def object_tree_eq Let_def)
next
  case (BpRegisterDone a)
  then show ?thesis by (simp add: tree_after_def on_register_done_def object_tree_eq)
next
  case (BpPublish reply reg v)
  then show ?thesis using publish_seen [OF inv] by (simp add: tree_after_def)
qed

lemma bluez_tree_run:
  "provider_inv p \<Longrightarrow> bluez_tree es p (object_tree p) = object_tree (fold bp_handle es p)"
  by (induction es arbitrary: p) (simp_all add: tree_after_handle provider_inv_handle)

section \<open>Finding the adapter and the device\<close>

lemma resolve_loop_fst:
  "paths_ok objs \<Longrightarrow> fst (resolve_loop mac objs (a, d)) =
     (if a \<noteq> '''' then a else case find (\<lambda>o'. obj_manager (snd o')) objs of None \<Rightarrow> '''' | Some o' \<Rightarrow> fst o')"
  by (induction objs arbitrary: a d) (auto simp: paths_ok_def Let_def)

lemma resolve_loop_snd:
  "paths_ok objs \<Longrightarrow> snd (resolve_loop mac objs (a, d)) =
     (if d \<noteq> '''' then d else case find (is_ours mac) objs of None \<Rightarrow> '''' | Some o' \<Rightarrow> fst o')"
proof (induction objs arbitrary: a d)
  case Nil
  then show ?case by simp
next
  case (Cons o' objs)
  obtain p x where o': "o' = (p, x)" by (cases o')
  have "paths_ok objs" "p \<noteq> ''''" using Cons.prems by (auto simp: paths_ok_def o')
  moreover have "is_ours mac (p, x) \<longleftrightarrow>
      (\<exists>dev addr. obj_device x = Some dev \<and> dev_address dev = Some addr \<and> upper addr = mac)"
    by (simp add: is_ours_def)
  ultimately show ?case using Cons.IH by (auto simp: o' Let_def split: option.splits)
qed

text \<open>The watch and the provider find the same device in the same tree.\<close>

lemma resolve_scan_agree:
  assumes "paths_ok objs"
  shows "snd (resolve_loop mac objs ('''', '''')) = fst (scan_objects mac objs ('''', False))"
  using assms by (auto simp: resolve_loop_snd scan_objects_first split: option.split)

section \<open>Properties\<close>

text \<open>
  The one percentage given to BlueZ is the lower of the pods that gave a reading, whatever
  the case says, and none when no pod did; and it is the same with the pods exchanged, so no
  transposition of left and right can show in it.
\<close>

theorem percentage_symmetric_min:
  "derive_percentage v = (if pod_levels v = {} then None else Some (Min (pod_levels v)))
   \<and> derive_percentage (swap_pods v) = derive_percentage v
   \<and> map_of (v_components (swap_pods v)) ''left'' = map_of (v_components v) ''right''
   \<and> map_of (v_components (swap_pods v)) ''right'' = map_of (v_components v) ''left''"
  by (simp add: derive_percentage_Min pod_levels_swap swapped_lookup) (simp add: swap_key_def)


definition registered_provider :: provider where
  "registered_provider = (snd (bp_start True 1 (new_provider ''AA:BB:CC:DD:EE:FF'')))
     \<lparr>bp_adapter := ''/org/bluez/hci0'', bp_device := ''/org/bluez/hci0/dev_AA_BB_CC_DD_EE_FF'', bp_registered := True\<rparr>"



text \<open>
  The watch and the provider agree on the device: in the same tree of BlueZ, the path the
  provider publishes for is the path the watch follows, and the adapter is the first object
  with the battery manager.
\<close>

theorem watch_and_provider_agree:
  assumes "paths_ok objs"
  shows "snd (resolve_loop (bp_mac (new_provider mac)) objs ('''', ''''))
       = fst (scan_objects (bw_mac (new_watch mac)) objs ('''', False))
    \<and> fst (resolve_loop (bp_mac (new_provider mac)) objs ('''', ''''))
       = (case find (\<lambda>o'. obj_manager (snd o')) objs of None \<Rightarrow> '''' | Some o' \<Rightarrow> fst o')"
  using resolve_scan_agree [OF assms] resolve_loop_fst [OF assms]
  by (simp add: new_provider_def new_watch_def)

theorem watch_and_provider_agree_witness:
  "resolve_loop (bp_mac (new_provider ''aa:bb:cc:dd:ee:ff'')) sample_objects ('''', '''')
     = (''/org/bluez/hci0'', ''/org/bluez/hci0/dev_AA_BB_CC_DD_EE_FF'')"
proof -
  have "paths_ok sample_objects" by (simp add: paths_ok_def sample_objects_def)
  note A = watch_and_provider_agree [OF this, of "''aa:bb:cc:dd:ee:ff''"]
  have "fst (scan_objects (bw_mac (new_watch ''aa:bb:cc:dd:ee:ff'')) sample_objects ('''', False))
      = ''/org/bluez/hci0/dev_AA_BB_CC_DD_EE_FF''" by code_simp
  moreover have "(case find (\<lambda>o'. obj_manager (snd o')) sample_objects of None \<Rightarrow> '''' | Some o' \<Rightarrow> fst o') = ''/org/bluez/hci0''"
    by code_simp
  ultimately show ?thesis using A by (metis prod.collapse)
qed

end
