(* ===== verification/Help_Texts.thy ===== *)
theory Help_Texts
  imports Std_Lib
begin

text \<open>
  The help texts of the two programs (\<open>usage\<close> in \<open>cli/src/main.cpp\<close> and in
  \<open>daemon/src/main.cpp\<close>), and a reader of the options they name. The theories of the two
  programs show that the arguments accepted are the ones the help names.
\<close>

text \<open>\<open>std::puts\<close> ends the text with one more newline.\<close>

definition cli_help :: "string list" where
  "cli_help = [
     ''airprobe -- AirPods AAP channel probe (s2: battery hunt)'',
     '''',
     ''usage: airprobe <MAC> [options]'',
     '''',
     ''  <MAC>              classic paired address, AA:BB:CC:DD:EE:FF'',
     ''                     find it with:  bluetoothctl devices'',
     '''',
     ''the battery-hunt knobs (defaults match the working Linux client):'',
     ''  --notify VARIANT   5ff  eleven bytes, five FF mask bytes [default]'',
     ''                     4ff  ten bytes, FF FF FF FF'',
     ''                     4fe  ten bytes, FF FF FE FF  (what s1 sent)'',
     ''  --caps VARIANT     d7   host capabilities 0xD7        [default]'',
     ''                     ff   host capabilities 0xFF'',
     ''                     none skip the host-capabilities packet'',
     ''  --sequence MODE    ack    wait for each ack before the next packet'',
     ''                            [default]'',
     ''                     sleep  200ms delays, no waiting (s1 behaviour)'',
     '''',
     ''other options:'',
     ''  --duration N       seconds to listen (default 90, 0 = until Ctrl-C)'',
     ''  --capture FILE     write a transcript (default airprobe-<time>.cap)'',
     ''  --no-capture       do not write a transcript'',
     ''  --no-handshake     skip the handshake, to prove it is required'',
     ''  --insecure         skip setsockopt(BT_SECURITY_MEDIUM)'',
     ''  --verbose          debug-level logging'',
     ''  --help             this text'',
     '''',
     ''To reproduce s1 exactly:  --notify 4fe --caps none --sequence sleep'',
     '''',
     ''The pods must be connected to THIS machine. Only one host holds the'',
     ''AAP channel at a time -- if the iPhone has them, this will fail.'',
     '''',
     ''WHILE IT LISTENS, GENERATE EVENTS. Battery is push-only: the pods'',
     ''send it when something changes, so make something change. Take a pod'',
     ''out, put it back, open the case, close the case, put a pod in the'',
     ''case, long-press a stem.'',
     '''']"

definition daemon_help :: "string list" where
  "daemon_help = [
     ''airprobed -- Airprobe session daemon'',
     '''',
     ''  airprobed <MAC> [options]'',
     '''',
     ''  <MAC>           classic paired address of the pods'',
     ''                  (bluetoothctl devices)'',
     '''',
     ''  --verbose       debug logging, including every packet in both'',
     ''                  directions'',
     ''  --tick-ms N     how often to pump the session (default 200)'',
     ''  --no-bluez-battery'',
     ''                  do not register as a BlueZ battery provider, so'',
     ''                  nothing appears in Settings -> Power. airprobed's'',
     ''                  own interface is unaffected.'',
     ''  --self-test     publish SYNTHETIC snapshots and open no channel.'',
     ''                  Exercises the D-Bus encoding with no hardware.'',
     ''                  Every number it publishes is invented.'',
     ''  --help          this'',
     '''',
     ''  <MAC> may also come from AIRPROBE_MAC, which is how the systemd'',
     ''  unit supplies it. argv wins when both are present.'',
     '''',
     ''Serves io.github.scott8420.Airprobe on the session bus.'',
     ''Inspect it with:'',
     ''  gdbus introspect --session -d io.github.scott8420.Airprobe '' @ [CHR 0x5C],
     ''                             -o /io/github/scott8420/Airprobe'']"

definition cli_usage :: string where
  "cli_usage = unlines cli_help"

definition daemon_usage :: string where
  "daemon_usage = unlines daemon_help"

section \<open>The options a text names\<close>

text \<open>An option is described by a line of its own, of which it is the first word.\<close>

definition first_word :: "string \<Rightarrow> string" where
  "first_word l = takeWhile (\<lambda>c. c \<noteq> CHR '' '') (dropWhile (\<lambda>c. c = CHR '' '') l)"

definition long_option :: "string \<Rightarrow> bool" where
  "long_option w \<longleftrightarrow> take 2 w = ''--'' \<and> 2 < length w"

definition options_named :: "string \<Rightarrow> string list" where
  "options_named help = filter long_option (map first_word (lines_of help))"

lemma help_lines: "list_all line_ok cli_help" "list_all line_ok daemon_help"
  by code_simp+

lemma options_named_lines: "list_all line_ok ls \<Longrightarrow> options_named (unlines ls) = filter long_option (map first_word ls)"
  by (simp add: options_named_def lines_of_unlines)

lemma cli_options_named:
  "options_named cli_usage =
    [''--notify'', ''--caps'', ''--sequence'', ''--duration'', ''--capture'', ''--no-capture'',
     ''--no-handshake'', ''--insecure'', ''--verbose'', ''--help'']"
  unfolding cli_usage_def options_named_lines [OF help_lines(1)] by code_simp

lemma daemon_options_named:
  "options_named daemon_usage =
    [''--verbose'', ''--tick-ms'', ''--no-bluez-battery'', ''--self-test'', ''--help'']"
  unfolding daemon_usage_def options_named_lines [OF help_lines(2)] by code_simp

end
