(* ===== verification/Airprobed.thy ===== *)
theory Airprobed
  imports Battery_Provider Help_Texts
begin

text \<open>
  The daemon as a whole: \<open>daemon/src/main.cpp\<close>. Its arguments, and the wiring of the pump to
  the session-bus service and the battery provider. The lemmas are about the whole program:
  what a subscriber and the desktop can see is the state of the channel now.
\<close>

section \<open>Arguments\<close>

text \<open>
  The outcome of the arguments: an exit code before anything is opened, with what was printed on
  the standard error (the standard output is not used), a daemon to run, or undefined behaviour
  of \<open>atoi\<close>.
\<close>

datatype launch = ExitCode int string | Launch options bool | Undefined

definition default_options :: options where
  "default_options = \<lparr>o_mac = '''', o_tick_ms = 200, o_verbose = False, o_self_test = False\<rparr>"

fun parse_args :: "string list \<Rightarrow> options \<Rightarrow> bool \<Rightarrow> launch" where
  "parse_args [] opts bluez_battery = Launch opts bluez_battery"
| "parse_args (a # rest) opts bluez_battery =
    (if a = ''--help'' \<or> a = ''-h'' then ExitCode 0 daemon_usage
     else if a = ''--verbose'' \<or> a = ''-v'' then parse_args rest (opts\<lparr>o_verbose := True\<rparr>) bluez_battery
     else if a = ''--self-test'' then parse_args rest (opts\<lparr>o_self_test := True\<rparr>) bluez_battery
     else if a = ''--no-bluez-battery'' then parse_args rest opts False
     else if a = ''--tick-ms'' \<and> rest \<noteq> [] then
       (case atoi (hd rest) of
          None \<Rightarrow> Undefined
        | Some n \<Rightarrow> if n \<le> 0 then ExitCode 2 (unlines [''--tick-ms must be positive''])
                  else parse_args (tl rest) (opts\<lparr>o_tick_ms := n\<rparr>) bluez_battery)
     else if a \<noteq> '''' \<and> hd a = CHR ''-'' then ExitCode 2 (unlines [''unknown option: '' @ a] @ daemon_usage)
     else if o_mac opts = '''' then parse_args rest (opts\<lparr>o_mac := a\<rparr>) bluez_battery
     else ExitCode 2 (unlines [''one MAC at a time. The AAP channel is exclusive and'',
                               ''this daemon holds exactly one.'']))"

definition launch_of :: "string list \<Rightarrow> string option \<Rightarrow> launch" where
  "launch_of args env =
    (case parse_args args default_options True of
       Launch opts bluez_battery \<Rightarrow>
         (let opts = (if o_mac opts = '''' then (case env of Some e \<Rightarrow> opts\<lparr>o_mac := e\<rparr> | None \<Rightarrow> opts) else opts)
          in if o_mac opts = '''' \<and> \<not> o_self_test opts
             then ExitCode 2 (unlines [''no MAC given, and AIRPROBE_MAC is not set.'', ''''] @ daemon_usage) else Launch opts bluez_battery)
     | other \<Rightarrow> other)"

section \<open>Wiring\<close>

text \<open>
  The answers of the system bus to the provider's calls inside \<open>publish\<close>, indexed by the
  number of the snapshot that is being delivered, and the identifier of the claim on the name.
\<close>

record bus_answers =
  ba_managed :: "nat \<Rightarrow> managed option"
  ba_reg :: "nat \<Rightarrow> nat"
  ba_owner :: nat

record daemon =
  d_pump :: pump
  d_service :: dbus_service
  d_provider :: "provider option"
  d_delivered :: nat

text \<open>The callback \<open>main\<close> gives the pump: the service first, then the provider if there is one.\<close>

definition deliver :: "bus_answers \<Rightarrow> state \<Rightarrow> daemon \<Rightarrow> daemon" where
  "deliver ba v d = d\<lparr>d_service := ds_publish v (d_service d),
     d_provider := map_option (bp_publish (ba_managed ba (d_delivered d)) (ba_reg ba (d_delivered d)) v) (d_provider d),
     d_delivered := Suc (d_delivered d)\<rparr>"

text \<open>
  A pump operation, with the snapshots it publishes delivered in order. Neither consumer
  calls back into the pump, so delivering at the end is what the nested calls do.
\<close>

definition with_pump :: "bus_answers \<Rightarrow> (pump \<Rightarrow> pump) \<Rightarrow> daemon \<Rightarrow> daemon" where
  "with_pump ba f d =
     fold (deliver ba) (drop (length (p_out (d_pump d))) (p_out (f (d_pump d)))) (d\<lparr>d_pump := f (d_pump d)\<rparr>)"

definition make_provider :: "bool \<Rightarrow> bool \<Rightarrow> nat \<Rightarrow> options \<Rightarrow> provider option" where
  "make_provider bluez_battery bus reg opts =
    (if bluez_battery \<and> \<not> o_self_test opts
     then let (started, p) = bp_start bus reg (new_provider (o_mac opts)) in if started then Some p else None
     else None)"

definition daemon_start ::
    "os \<Rightarrow> (nat \<Rightarrow> nat) \<Rightarrow> bus_answers \<Rightarrow> bool \<Rightarrow> nat \<Rightarrow> managed option \<Rightarrow> options \<Rightarrow> bool \<Rightarrow> daemon" where
  "daemon_start os gid ba bus reg reply opts bluez_battery =
     with_pump ba (pump_start os gid bus reply)
       \<lparr>d_pump = new_pump opts, d_service = snd (ds_start True (ba_owner ba) new_service),
        d_provider = make_provider bluez_battery bus reg opts, d_delivered = 0\<rparr>"

datatype daemon_event =
    ToPump pump_event
  | BusAcquired nat
  | ProviderAppeared "managed option"
  | ProviderVanished
  | ProviderRegisterDone bool

fun daemon_handle :: "os \<Rightarrow> (nat \<Rightarrow> nat) \<Rightarrow> bus_answers \<Rightarrow> daemon_event \<Rightarrow> daemon \<Rightarrow> daemon" where
  "daemon_handle os gid ba (ToPump e) d = with_pump ba (pump_handle os gid e) d"
| "daemon_handle os gid ba (BusAcquired reg) d = d\<lparr>d_service := on_bus_acquired reg (d_service d)\<rparr>"
| "daemon_handle os gid ba (ProviderAppeared reply) d =
     d\<lparr>d_provider := map_option (register_with_bluez reply) (d_provider d)\<rparr>"
| "daemon_handle os gid ba ProviderVanished d =
     d\<lparr>d_provider := map_option on_bluez_vanished (d_provider d)\<rparr>"
| "daemon_handle os gid ba (ProviderRegisterDone accepted) d =
     d\<lparr>d_provider := map_option (on_register_done accepted) (d_provider d)\<rparr>"

text \<open>
  The live property: \<open>main\<close> hands the service a callback to the pump's age of the reading, so a
  client's read of \<open>BatteryAgeMs\<close> looks at the clock then, and every other read at the state.
\<close>

definition daemon_get_property :: "os \<Rightarrow> string \<Rightarrow> daemon \<Rightarrow> string + gvariant" where
  "daemon_get_property os p d =
     get_property_trampoline (Some (pump_battery_age_ms os (d_pump d))) p (d_service d)"

text \<open>A signal ends the loop; then the pump and its session, and the provider, are destroyed.\<close>

definition daemon_stop :: "daemon \<Rightarrow> daemon" where
  "daemon_stop d =
     d\<lparr>d_pump := pump_destroy (d_pump d), d_provider := map_option bp_destroy (d_provider d)\<rparr>"

text \<open>
  The program: the exit code, what the arguments made it print, and the daemon at its end, if
  one ran. \<open>xml\<close> is whether GIO accepts the service's introspection data, without which nothing
  is served; \<open>es\<close> are the events until a signal quits the main loop.
\<close>

definition daemon_main ::
    "os \<Rightarrow> (nat \<Rightarrow> nat) \<Rightarrow> bus_answers \<Rightarrow> bool \<Rightarrow> bool \<Rightarrow> nat \<Rightarrow> managed option \<Rightarrow> daemon_event list \<Rightarrow>
     string list \<Rightarrow> string option \<Rightarrow> (int \<times> string \<times> daemon option) option" where
  "daemon_main os gid ba xml bus reg reply es args env =
    (case launch_of args env of
       ExitCode code msg \<Rightarrow> Some (code, msg, None)
     | Undefined \<Rightarrow> None
     | Launch opts bluez_battery \<Rightarrow>
         if \<not> fst (ds_start xml (ba_owner ba) new_service) then Some (1, '''', None)
         else Some (0, '''', Some (daemon_stop (fold (daemon_handle os gid ba) es
                (daemon_start os gid ba bus reg reply opts bluez_battery)))))"

inductive daemon_reachable ::
    "os \<Rightarrow> (nat \<Rightarrow> nat) \<Rightarrow> bus_answers \<Rightarrow> options \<Rightarrow> daemon \<Rightarrow> bool" for os gid ba opts where
  started: "daemon_reachable os gid ba opts (daemon_start os gid ba bus reg reply opts bluez_battery)"
| handled: "daemon_reachable os gid ba opts d \<Longrightarrow> daemon_reachable os gid ba opts (daemon_handle os gid ba e d)"

section \<open>What the consumers hold\<close>

text \<open>
  A provider that was last given \<open>v\<close>: an announced object shows exactly \<open>v\<close>.
\<close>

definition provider_ok :: "state \<Rightarrow> provider \<Rightarrow> bool" where
  "provider_ok v p \<longleftrightarrow> provider_inv p \<and> bp_sys p \<and> bp_om_reg p \<noteq> 0 \<and>
     (bp_exported p \<longrightarrow> showable v \<and> bp_percentage p = Min (pod_levels v) \<and> bp_source p = derive_source v)"

definition provider_wired :: "provider \<Rightarrow> bool" where
  "provider_wired p \<longleftrightarrow> provider_inv p \<and> bp_sys p \<and> bp_om_reg p \<noteq> 0"

lemma provider_ok_wired: "provider_ok v p \<Longrightarrow> provider_wired p"
  by (simp add: provider_ok_def provider_wired_def)

lemma bp_ops_sels [simp]:
  "bp_sys (add_object reg p) = bp_sys p" "bp_om_reg (add_object reg p) = bp_om_reg p"
  "bp_sys (remove_object p) = bp_sys p" "bp_om_reg (remove_object p) = bp_om_reg p"
  "bp_sys (emit_properties_changed p) = bp_sys p" "bp_om_reg (emit_properties_changed p) = bp_om_reg p"
  "bp_sys (located reply p) = bp_sys p" "bp_om_reg (located reply p) = bp_om_reg p"
  by (simp_all add: add_object_def remove_object_def emit_properties_changed_def located_def Let_def)

lemma bp_publish_sels [simp]:
  "bp_sys (bp_publish reply reg v p) = bp_sys p" "bp_om_reg (bp_publish reply reg v p) = bp_om_reg p"
proof -
  have "bp_sys (bp_publish reply reg v p) = bp_sys p \<and> bp_om_reg (bp_publish reply reg v p) = bp_om_reg p"
  proof (cases "provider_ready p")
    case True
    then show ?thesis by (simp add: bp_publish_ready Let_def)
  next
    case False
    then have "bp_publish reply reg v p = p" by (auto simp: bp_publish_def provider_ready_def)
    then show ?thesis by simp
  qed
  then show "bp_sys (bp_publish reply reg v p) = bp_sys p" "bp_om_reg (bp_publish reply reg v p) = bp_om_reg p"
    by auto
qed

lemma provider_ok_publish:
  assumes "provider_wired p" shows "provider_ok v (bp_publish reply reg v p)"
proof -
  have i: "provider_inv (bp_publish reply reg v p)"
    using assms provider_inv_publish by (simp add: provider_wired_def)
  have "provider_ready p" if "bp_exported (bp_publish reply reg v p)"
  proof (rule ccontr)
    assume n: "\<not> provider_ready p"
    then have "bp_publish reply reg v p = p" by (auto simp: bp_publish_def provider_ready_def)
    with that i assms n show False by (auto simp: provider_inv_def provider_wired_def provider_ready_def)
  qed
  then show ?thesis
    using i assms bp_publish_shows by (auto simp: provider_ok_def provider_wired_def)
qed

lemma fold_deliver_sels [simp]:
  "d_pump (fold (deliver ba) vs d) = d_pump d"
  "d_service (fold (deliver ba) vs d) = fold ds_publish vs (d_service d)"
  by (induction vs arbitrary: d) (simp_all add: deliver_def)

lemma fold_deliver_provider:
  "vs \<noteq> [] \<Longrightarrow> (\<And>p. d_provider d = Some p \<Longrightarrow> provider_wired p) \<Longrightarrow>
   d_provider (fold (deliver ba) vs d) = Some p \<Longrightarrow> provider_ok (last vs) p"
proof (induction vs arbitrary: d)
  case Nil
  then show ?case by simp
next
  case (Cons v vs)
  define d1 where "d1 = deliver ba v d"
  have w: "provider_ok v p1" if "d_provider d1 = Some p1" for p1
    using that Cons.prems(2) provider_ok_publish by (auto simp: d1_def deliver_def)
  show ?case
  proof (cases "vs = []")
    case True
    with Cons.prems(3) w show ?thesis by (simp add: d1_def)
  next
    case False
    with Cons.IH [OF False, of d1] Cons.prems(3) w provider_ok_wired show ?thesis by (auto simp: d1_def)
  qed
qed

definition daemon_inv :: "daemon \<Rightarrow> bool" where
  "daemon_inv d \<longleftrightarrow> p_out (d_pump d) \<noteq> [] \<and> on_bus (d_service d) = Some (last (p_out (d_pump d))) \<and>
     (\<forall>p. d_provider d = Some p \<longrightarrow> provider_ok (last (p_out (d_pump d))) p)"

lemma with_pump_inv:
  assumes grows: "prefix (p_out (d_pump d)) (p_out (f (d_pump d)))"
    and w: "\<And>p. d_provider d = Some p \<Longrightarrow> provider_wired p"
    and old: "daemon_inv d \<or> p_out (d_pump d) = [] \<and> p_out (f (d_pump d)) \<noteq> []"
  shows "daemon_inv (with_pump ba f d)"
proof -
  obtain vs where vs: "p_out (f (d_pump d)) = p_out (d_pump d) @ vs" using grows by (auto simp: prefix_def)
  have d: "with_pump ba f d = fold (deliver ba) vs (d\<lparr>d_pump := f (d_pump d)\<rparr>)"
    by (simp add: with_pump_def vs)
  show ?thesis
  proof (cases "vs = []")
    case True
    with old vs show ?thesis by (auto simp: d daemon_inv_def)
  next
    case False
    have "on_bus (fold ds_publish vs (d_service d)) = Some (last vs)" by (rule bus.shown_fold [OF False])
    moreover have "provider_ok (last vs) p" if "d_provider (with_pump ba f d) = Some p" for p
      using fold_deliver_provider [OF False, of "d\<lparr>d_pump := f (d_pump d)\<rparr>"] w that by (simp add: d)
    ultimately show ?thesis using False vs d by (simp add: daemon_inv_def)
  qed
qed

lemma daemon_inv_wired: "daemon_inv d \<Longrightarrow> d_provider d = Some p \<Longrightarrow> provider_wired p"
  using provider_ok_wired by (auto simp: daemon_inv_def)

lemma provider_ok_event:
  assumes "provider_ok v p" and "\<And>reply reg v. e \<noteq> BpPublish reply reg v"
  shows "provider_ok v (bp_handle e p)"
proof -
  have "provider_inv (bp_handle e p)" using assms(1) provider_inv_handle by (simp add: provider_ok_def)
  moreover have "bp_exported (bp_handle e p) \<Longrightarrow> bp_exported p"
    using assms(2) by (cases e) (auto simp: register_with_bluez_def on_bluez_vanished_def on_register_done_def
        case_prod_unfold Let_def split: if_splits)
  moreover have "bp_percentage (bp_handle e p) = bp_percentage p" "bp_source (bp_handle e p) = bp_source p"
    "bp_sys (bp_handle e p) = bp_sys p" "bp_om_reg (bp_handle e p) = bp_om_reg p"
    using assms(2) by (cases e; auto simp: register_with_bluez_def on_bluez_vanished_def on_register_done_def
        case_prod_unfold Let_def)+
  ultimately show ?thesis using assms(1) by (auto simp: provider_ok_def)
qed

lemma daemon_handle_inv: "daemon_inv d \<Longrightarrow> daemon_inv (daemon_handle os gid ba e d)"
proof (cases e)
  case (ToPump ev)
  then show "daemon_inv d \<Longrightarrow> ?thesis"
    using with_pump_inv [of d "pump_handle os gid ev"] pump_handle_grows daemon_inv_wired by simp
next
  case (BusAcquired reg)
  then show "daemon_inv d \<Longrightarrow> ?thesis" by (auto simp: daemon_inv_def on_bus_acquired_def on_bus_def split: if_splits)
next
  case (ProviderAppeared reply)
  then show "daemon_inv d \<Longrightarrow> ?thesis"
    using provider_ok_event [of _ _ "BpAppeared reply"] by (auto simp: daemon_inv_def)
next
  case ProviderVanished
  then show "daemon_inv d \<Longrightarrow> ?thesis"
    using provider_ok_event [of _ _ BpVanished] by (auto simp: daemon_inv_def)
next
  case (ProviderRegisterDone a)
  then show "daemon_inv d \<Longrightarrow> ?thesis"
    using provider_ok_event [of _ _ "BpRegisterDone a"] by (auto simp: daemon_inv_def)
qed

interpretation daemon_events: event_handler "daemon_handle os gid ba" daemon_inv for os gid ba
  by unfold_locales (rule daemon_handle_inv)

lemma make_provider_wired: "make_provider b bus reg opts = Some p \<Longrightarrow> provider_wired p"
  using provider_inv_new [of bus reg "o_mac opts"]
  by (auto simp: make_provider_def provider_wired_def bp_start_def Let_def split: if_splits)

lemma pump_start_out: "p_out (pump_start os gid bus reply (new_pump opts)) \<noteq> []"
proof (cases "o_self_test opts")
  case True
  then have "self_test_inv gid opts (pump_start os gid bus reply (new_pump opts))" by (rule self_test_start)
  then show ?thesis by (auto simp: self_test_inv_def)
next
  case False
  with current_start [of opts os gid bus reply] show ?thesis by (simp add: current_def)
qed

lemma daemon_start_inv: "daemon_inv (daemon_start os gid ba bus reg reply opts b)"
  unfolding daemon_start_def
  using pump_start_out [of os gid bus reply opts] make_provider_wired
  by (intro with_pump_inv) (auto simp: new_pump_def)

lemma daemon_reachable_inv: "daemon_reachable os gid ba opts d \<Longrightarrow> daemon_inv d"
  by (induction rule: daemon_reachable.induct) (simp_all add: daemon_start_inv daemon_handle_inv)

lemma daemon_reachable_fold:
  "daemon_reachable os gid ba opts d \<Longrightarrow> daemon_reachable os gid ba opts (fold (daemon_handle os gid ba) es d)"
  by (induction es arbitrary: d) (simp_all add: daemon_reachable.handled)

lemma with_pump_pump [simp]: "d_pump (with_pump ba f d) = f (d_pump d)"
  by (simp add: with_pump_def)

text \<open>The pump inside the daemon is a reachable pump.\<close>

lemma daemon_reachable_pump: "daemon_reachable os gid ba opts d \<Longrightarrow> pump_reachable os gid opts (d_pump d)"
proof (induction rule: daemon_reachable.induct)
  case (started bus reg reply b)
  show ?case by (simp add: daemon_start_def pump_reachable.started)
next
  case (handled d e)
  then show ?case by (cases e) (simp_all add: pump_reachable.handled)
qed

text \<open>So what is on the bus is the pump's present snapshot, and the desktop's number is about it.\<close>

lemma daemon_on_bus:
  assumes "daemon_reachable os gid ba opts d" "glib_ids gid" "\<not> o_self_test opts"
  shows "ds_published (d_service d)" "ds_state (d_service d) = snapshot (d_pump d)"
proof -
  have "last (p_out (d_pump d)) = snapshot (d_pump d)"
    using pump_reachable_current [OF daemon_reachable_pump [OF assms(1)] assms(2,3)] by (simp add: current_def)
  moreover have "on_bus (d_service d) = Some (last (p_out (d_pump d)))"
    using daemon_reachable_inv [OF assms(1)] by (simp add: daemon_inv_def)
  ultimately show "ds_published (d_service d)" "ds_state (d_service d) = snapshot (d_pump d)"
    by (auto simp: on_bus_def split: if_splits)
qed

lemma daemon_provider:
  assumes "daemon_reachable os gid ba opts d" "glib_ids gid" "\<not> o_self_test opts" "d_provider d = Some p"
  shows "provider_ok (snapshot (d_pump d)) p"
proof -
  have "last (p_out (d_pump d)) = snapshot (d_pump d)"
    using pump_reachable_current [OF daemon_reachable_pump [OF assms(1)] assms(2,3)] by (simp add: current_def)
  then show ?thesis using daemon_reachable_inv [OF assms(1)] assms(4) by (auto simp: daemon_inv_def)
qed

lemma snapshot_channel_open: "v_channel_open (snapshot p) \<longleftrightarrow> (\<exists>s. p_session p = Some s \<and> is_open s)"
  by (auto simp: snapshot_def default_state_def Let_def split: option.split)

lemma snapshot_truthful_reachable:
  "pump_reachable os gid opts p \<Longrightarrow> \<not> o_self_test opts \<Longrightarrow> state_truthful (snapshot p)"
  using pump_reachable_published snapshot_truthful by (auto simp: published_ok_def)

lemma pod_levels_range: "state_truthful v \<Longrightarrow> l \<in> pod_levels v \<Longrightarrow> l \<le> 100"
  using pod_level_truthful by (auto simp: pod_levels_def)

lemma self_test_no_provider: "daemon_reachable os gid ba opts d \<Longrightarrow> o_self_test opts \<Longrightarrow> d_provider d = None"
proof (induction rule: daemon_reachable.induct)
  case (started bus reg reply b)
  have "d_provider (fold (deliver ba) vs d) = None" if "d_provider d = None" for vs d
    using that by (induction vs arbitrary: d) (simp_all add: deliver_def)
  then show ?case using started by (simp add: daemon_start_def with_pump_def make_provider_def)
next
  case (handled d e)
  have "d_provider (fold (deliver ba) vs d) = None" if "d_provider d = None" for vs d
    using that by (induction vs arbitrary: d) (simp_all add: deliver_def)
  then show ?case using handled by (cases e) (simp_all add: with_pump_def)
qed

text \<open>After the end nothing is open, and of the timers only a pending retry can be left.\<close>

lemma pump_destroy_session: "p_session (pump_destroy p) = map_option session_close (p_session p)"
  by (auto simp: pump_destroy_def remove_source_def Let_def split: option.split)

text \<open>A watch that the pump keeps was started: it has the bus, and with it its subscriptions.\<close>

definition watch_started :: "pump \<Rightarrow> bool" where
  "watch_started p \<longleftrightarrow> (\<forall>w. p_watch p = Some w \<longrightarrow> bw_sys w)"

lemma p_watch_ops [simp]:
  "p_watch (schedule_retry gid p) = p_watch p" "p_watch (remove_source i p) = p_watch p"
  "p_watch (attach os gid p) = p_watch p" "p_watch (detach why p) = p_watch p"
  "p_watch (on_bluez os gid c path p) = p_watch p"
proof -
  show sr: "p_watch (schedule_retry gid p) = p_watch p" for p
    by (auto simp: schedule_retry_def add_source_eq Let_def split: option.split)
  show rs: "p_watch (remove_source i p) = p_watch p" for i p by (simp add: remove_source_def)
  show at: "p_watch (attach os gid p) = p_watch p" for p
    by (auto simp: attach_def add_source_eq sr rs case_prod_unfold Let_def split: option.split)
  show dt: "p_watch (detach why p) = p_watch p" for why p by (simp add: detach_def rs Let_def)
  show "p_watch (on_bluez os gid c path p) = p_watch p" by (auto simp: on_bluez_def at dt rs Let_def)
qed

lemma watch_started_with:
  assumes "watch_started p" "\<And>w. bw_sys w \<Longrightarrow> bw_sys (fst (f w))"
  shows "watch_started (with_watch os gid f p)"
  using assms by (auto simp: watch_started_def with_watch_def case_prod_unfold Let_def split: option.split)

lemma watch_started_same: "watch_started p \<Longrightarrow> p_watch q = p_watch p \<Longrightarrow> watch_started q"
  by (simp add: watch_started_def)

lemma watch_started_removed [simp]: "watch_started (remove_source i p) \<longleftrightarrow> watch_started p"
  by (simp add: watch_started_def)

lemma watch_started_fire: "watch_started p \<Longrightarrow> watch_started (snd (fire os gid src reply p))"
proof (cases src)
  case (RescanTimer ms)
  then show "watch_started p \<Longrightarrow> ?thesis" by (simp add: fire_def watch_started_with bw_rescan_trampoline_def)
qed (auto simp: fire_def tick_def retry_trampoline_def self_test_trampoline_def case_prod_unfold Let_def
      intro: watch_started_same split: option.split)

lemma watch_started_handle: "watch_started p \<Longrightarrow> watch_started (pump_handle os gid e p)"
proof (cases e)
  case (Fire i reply)
  then show "watch_started p \<Longrightarrow> ?thesis"
    using watch_started_fire [of p os gid _ reply]
    by (auto simp: case_prod_unfold Let_def intro: watch_started_same split: option.split)
next
  case (PropsChanged path c)
  have "bw_sys w \<Longrightarrow> bw_sys (fst (bw_props_changed path c w))" for w
    by (auto simp: bw_props_changed_def split: option.split)
  with PropsChanged show "watch_started p \<Longrightarrow> ?thesis" by (simp add: watch_started_with)
next
  case InterfacesChanged
  have "bw_sys (fst (bw_interfaces_changed gid w l)) = bw_sys w" for w l
    by (simp add: bw_interfaces_changed_def bw_rescan_soon_def case_prod_unfold Let_def)
  with InterfacesChanged show "watch_started p \<Longrightarrow> ?thesis"
    by (auto simp: watch_started_def case_prod_unfold Let_def split: option.split)
qed (simp_all add: watch_started_with bw_appeared_def bw_vanished_def)

lemma pump_reachable_watch: "pump_reachable os gid opts p \<Longrightarrow> watch_started p"
proof (induction rule: pump_reachable.induct)
  case (started bus reply)
  show ?case
    by (auto simp: watch_started_def pump_start_def run_self_test_def add_source_eq new_pump_def with_watch_def
        bw_start_def case_prod_unfold Let_def split: option.split)
qed (rule watch_started_handle)

text \<open>The claim on the bus name is held for the daemon's whole life.\<close>

lemma daemon_service_held:
  "daemon_reachable os gid ba opts d \<Longrightarrow> ds_held (d_service d) = (True, ba_owner ba)"
proof (induction rule: daemon_reachable.induct)
  case (started bus reg reply b)
  show ?case by (simp add: daemon_start_def with_pump_def)
next
  case (handled d e)
  then show ?case by (cases e) (simp_all add: with_pump_def)
qed

lemma pump_destroy_live:
  assumes g: "glib_ids gid" and w: "pump_wired gid {} p" and st: "\<not> o_self_test (p_opts p)"
    and live: "(i, src) \<in> set (l_live (p_loop (pump_destroy p)))"
  shows "kind_of src = KRetry"
proof -
  have i: "(i, src) \<in> set (l_live (p_loop p))" "i \<noteq> p_timer_id p \<or> p_timer_id p = 0"
    "\<And>w. p_watch p = Some w \<Longrightarrow> i \<noteq> bw_timer w \<or> bw_timer w = 0"
    using live by (auto simp: pump_destroy_def remove_source_def bw_destroy_def Let_def
        split: option.splits if_splits)
  have "owner p (kind_of src) = i" "i \<noteq> 0" using live_is_owned [OF g w i(1)] by simp_all
  then show ?thesis using i(2,3) st
    by (cases "kind_of src") (auto simp: owner_def split: option.splits)
qed


section \<open>From the packet to the buses\<close>

text \<open>A level in the snapshot comes from the cached report, which the parser accepted from a packet.\<close>

lemma daemon_level_source:
  assumes "daemon_reachable os gid ba opts d" "\<not> o_self_test opts"
    and "map_of (v_components (snapshot (d_pump d))) k = Some c" "cv_level c = Some l"
  shows "\<exists>s r packet x. p_session (d_pump d) = Some s \<and> s_last_battery s = Some r
    \<and> parse_battery packet = Some r \<and> x \<in> set (components r) \<and> component_name (component x) = k
    \<and> level x = Some l \<and> raw_level x = l \<and> l \<le> 100"
proof -
  have "published_ok (d_pump d)"
    by (rule pump_reachable_published [OF daemon_reachable_pump [OF assms(1)] assms(2)])
  then obtain s where s: "p_session (d_pump d) = Some s" "cache_parsed s"
    by (auto simp: published_ok_def session_good_def session_kept_def)
  from assms(3) obtain r where r: "s_last_battery s = Some r" "map_of (components_view (components r)) k = Some c"
    using s(1) by (cases "s_last_battery s") (auto simp: snapshot_def default_state_def)
  obtain packet where pk: "parse_battery packet = Some r" using s(2) r(1) by (auto simp: cache_parsed_def)
  obtain x where x: "x \<in> set (components r)" "k = component_name (component x)" "c = view_of x"
    using components_view_entry [OF map_of_SomeD [OF r(2)]] by blast
  have "component_ok x" using report_ok_component [OF parse_battery_report_ok [OF pk] x(1)] .
  moreover have "level x = Some l" using x(3) assms(4) by (simp add: view_of_def)
  ultimately have "l \<le> 100 \<and> l = raw_level x" using component_ok_level by blast
  with s r pk x \<open>level x = Some l\<close> show ?thesis by blast
qed

text \<open>An operation that publishes once delivers that snapshot.\<close>

lemma with_pump_publish:
  assumes "f (d_pump d) = publish_now q" "p_out q = p_out (d_pump d)"
  shows "with_pump ba f d = deliver ba (snapshot q) (d\<lparr>d_pump := publish_now q\<rparr>)"
  by (simp add: with_pump_def assms publish_now_def)

text \<open>A tick whose step receives a packet without losing the channel publishes the session it leaves.\<close>

lemma tick_publishes:
  assumes "map_of (l_live (p_loop p)) i = Some (TickTimer ms)" "p_session p = Some s"
    and "session_step os (pump_hook (o_verbose (p_opts p))) 0 s = (o', s')" "st_packet o'" "\<not> st_closed o'"
  shows "pump_handle os gid (Fire i reply) p = publish_now (p\<lparr>p_session := Some s'\<rparr>)"
  using assms by (simp add: fire_def tick_cases step_idle_def)

lemma step_parses:
  assumes "session_step os (pump_hook v) 0 s = (o', s')" "st_packet o'" "parse_battery (st_bytes o') = Some r"
  shows "s_last_battery s' = Some r"
  using logging_hook.session_step_cached [of os v 0 s] assms parse_battery_opcode [OF assms(3)]
  by (simp add: battery_cached_def)

text \<open>What a ready provider that knows the device does with a snapshot.\<close>

lemma ready_publish:
  assumes "provider_ready p" "bp_device p \<noteq> ''''" "reg \<noteq> 0"
  shows "bp_exported (bp_publish reply reg v p) \<longleftrightarrow> showable v"
    and "showable v \<Longrightarrow> bp_percentage (bp_publish reply reg v p) = Min (pod_levels v)"
  using bp_publish_withdraws [OF assms(1)] bp_publish_exports [OF assms(1) _ assms(3)] bp_publish_shows [OF assms(1)] assms(2)
  by blast+

text \<open>What a tick that receives a battery packet which parses publishes.\<close>

lemma packet_published:
  assumes "pump_reachable os gid opts p" "glib_ids gid" "\<not> o_self_test opts"
    and "map_of (l_live (p_loop p)) i = Some (TickTimer ms)" "p_session p = Some s"
    and "session_step os (pump_hook (o_verbose (p_opts p))) 0 s = (o', s')"
    and "st_packet o'" "\<not> st_closed o'" "parse_battery (st_bytes o') = Some r"
    and "q = p\<lparr>p_session := Some s'\<rparr>"
  shows "pump_handle os gid (Fire i reply) p = publish_now q" "v_have_battery (snapshot q)"
    "v_channel_open (snapshot q)" "v_components (snapshot q) = components_view (components r)"
proof -
  show "pump_handle os gid (Fire i reply) p = publish_now q"
    using tick_publishes [OF assms(4-8)] by (simp add: assms(10))
  obtain k where "session_inv k s"
    using pump_reachable_inv [OF assms(1-3)] assms(5) by (auto simp: pump_inv_def channel_ok_def split: if_splits)
  then have "is_open s'"
    using logging_hook.session_step_ok [of k s os "o_verbose (p_opts p)" 0] assms(6,8) by auto
  then show "v_have_battery (snapshot q)" "v_channel_open (snapshot q)" "v_components (snapshot q) = components_view (components r)"
    using step_parses [OF assms(6,7,9)] by (simp_all add: assms(10) snapshot_def Let_def)
qed

section \<open>The arguments\<close>

text \<open>One argument: nothing is launched, or the rest is parsed with what this one changed.\<close>

definition arg_step :: "options \<Rightarrow> options \<Rightarrow> bool" where
  "arg_step opts o1 \<longleftrightarrow>
     (o_tick_ms o1 = o_tick_ms opts \<or> 0 < o_tick_ms o1 \<and> o_tick_ms o1 < 2 ^ 31) \<and>
     (o_mac opts \<noteq> '''' \<longrightarrow> o_mac o1 = o_mac opts)"

definition parses_on :: "string list \<Rightarrow> options \<Rightarrow> launch \<Rightarrow> bool" where
  "parses_on rest opts l \<longleftrightarrow> (\<forall>o1 b1. l \<noteq> Launch o1 b1) \<or>
     (\<exists>r o1 b1. length r \<le> length rest \<and> l = parse_args r o1 b1 \<and> arg_step opts o1)"

lemma parses_onI: "length r \<le> length rest \<Longrightarrow> arg_step opts o1 \<Longrightarrow> parses_on rest opts (parse_args r o1 b1)"
  by (auto simp: parses_on_def)

lemma parses_on_exit: "parses_on rest opts (ExitCode n msg)" "parses_on rest opts Undefined"
  by (simp_all add: parses_on_def)

lemma parse_args_step: "parses_on rest opts (parse_args (a # rest) opts b)"
proof -
  have t: "parses_on rest opts (case atoi (hd rest) of None \<Rightarrow> Undefined
      | Some n \<Rightarrow> if n \<le> 0 then ExitCode 2 m else parse_args (tl rest) (opts\<lparr>o_tick_ms := n\<rparr>) b)" for m
    using atoi_range [of "hd rest"]
    by (auto simp: parses_on_exit arg_step_def intro!: parses_onI split: option.split)
  have m: "parses_on rest opts (if o_mac opts = '''' then parse_args rest (opts\<lparr>o_mac := a\<rparr>) b else ExitCode 2 m)" for m
    by (auto simp: parses_on_exit arg_step_def intro!: parses_onI)
  have "parses_on rest opts
    (if c1 then ExitCode 0 m1
     else if c2 then parse_args rest (opts\<lparr>o_verbose := True\<rparr>) b
     else if c3 then parse_args rest (opts\<lparr>o_self_test := True\<rparr>) b
     else if c4 then parse_args rest opts False
     else if c5 then (case atoi (hd rest) of None \<Rightarrow> Undefined
        | Some n \<Rightarrow> if n \<le> 0 then ExitCode 2 m2 else parse_args (tl rest) (opts\<lparr>o_tick_ms := n\<rparr>) b)
     else if c6 then ExitCode 2 m3
     else if o_mac opts = '''' then parse_args rest (opts\<lparr>o_mac := a\<rparr>) b
     else ExitCode 2 m4)" for c1 c2 c3 c4 c5 c6 m1 m2 m3 m4
    using t m by (simp add: parses_on_exit parses_onI arg_step_def)
  then show ?thesis unfolding parse_args.simps(2) .
qed

lemma parse_args_launch:
  "parse_args args opts b = Launch opts' b' \<Longrightarrow> arg_step opts opts'"
proof (induction "length args" arbitrary: args opts b rule: less_induct)
  case less
  show ?case
  proof (cases args)
    case Nil
    with less.prems show ?thesis by (simp add: arg_step_def)
  next
    case (Cons a rest)
    from parse_args_step [of rest opts a b] less.prems obtain r o1 b1
      where r: "length r \<le> length rest" "parse_args r o1 b1 = Launch opts' b'" "arg_step opts o1"
      unfolding parses_on_def Cons by metis
    have "arg_step o1 opts'" using less.hyps [OF _ r(2)] r(1) Cons by simp
    with r(3) show ?thesis by (auto simp: arg_step_def)
  qed
qed


text \<open>A daemon is launched only with a positive tick and an address, unless it is a self test.\<close>

lemma launch_of_Launch:
  assumes "launch_of args env = Launch opts b"
  shows "0 < o_tick_ms opts" "o_tick_ms opts < 2 ^ 31" "o_mac opts \<noteq> '''' \<or> o_self_test opts"
proof -
  obtain o1 where o1: "parse_args args default_options True = Launch o1 b" "o_tick_ms opts = o_tick_ms o1"
    "o_mac opts \<noteq> '''' \<or> o_self_test opts"
    using assms by (auto simp: launch_of_def Let_def split: launch.splits if_splits option.splits)
  have "0 < o_tick_ms o1 \<and> o_tick_ms o1 < 2 ^ 31"
    using parse_args_launch [OF o1(1)] by (auto simp: default_options_def arg_step_def)
  with o1 show "0 < o_tick_ms opts" "o_tick_ms opts < 2 ^ 31" "o_mac opts \<noteq> '''' \<or> o_self_test opts" by simp_all
qed

text \<open>
  The complaint about an unknown option, and which options get it: those the help does not
  name, and \<open>--tick-ms\<close> as the last argument, whose value is missing.
\<close>

definition daemon_unknown :: "string \<Rightarrow> launch" where
  "daemon_unknown a = ExitCode 2 (unlines [''unknown option: '' @ a] @ daemon_usage)"

lemma daemon_rejects:
  assumes "long_option a" "a \<notin> set (options_named daemon_usage)"
  shows "parse_args (a # rest) opts b = daemon_unknown a"
proof -
  have "take 2 a = ''--''" using assms(1) by (simp add: long_option_def)
  then have h: "a \<noteq> ''''" "hd a = CHR ''-''" by (cases a, simp_all)+
  have "a \<noteq> ''-h'' \<and> a \<noteq> ''-v''" using assms(1) by (auto simp: long_option_def)
  with assms(2) h show ?thesis by (simp add: daemon_options_named daemon_unknown_def)
qed

lemma daemon_accepts:
  assumes "a \<in> set (options_named daemon_usage)"
  shows "parse_args [a] opts b = daemon_unknown a \<longleftrightarrow> a = ''--tick-ms''"
proof -
  consider "a = ''--help''" | "a = ''--tick-ms''" | "a = ''--verbose''" | "a = ''--no-bluez-battery''" | "a = ''--self-test''"
    using assms unfolding daemon_options_named set_simps insert_iff empty_iff by blast
  then show ?thesis
    by cases (simp_all add: daemon_unknown_def)
qed

text \<open>Every exit before the start has a text, and only asking for help succeeds.\<close>

definition explained_code :: "launch \<Rightarrow> bool" where
  "explained_code l \<longleftrightarrow>
     (case l of ExitCode code msg \<Rightarrow> code = 0 \<and> msg = daemon_usage \<or> code = 2 \<and> msg \<noteq> '''' | _ \<Rightarrow> True)"

lemma explained_code_simps [simp]:
  "explained_code (ExitCode 2 msg) \<longleftrightarrow> msg \<noteq> ''''" "explained_code (ExitCode 0 daemon_usage)"
  "explained_code Undefined" "explained_code (Launch o1 b1)"
  by (simp_all add: explained_code_def)

lemma parse_args_explained: "explained_code (parse_args args opts b)"
proof (induction "length args" arbitrary: args opts b rule: less_induct)
  case less
  show ?case
  proof (cases args)
    case Nil
    then show ?thesis by simp
  next
    case (Cons a rest)
    have on: "explained_code (parse_args r o1 b1)" if "length r \<le> length rest" for r o1 b1
      using less.hyps that Cons by simp
    have t: "explained_code (case atoi (hd rest) of None \<Rightarrow> Undefined
        | Some n \<Rightarrow> if n \<le> 0 then ExitCode 2 (unlines (l # ls))
                  else parse_args (tl rest) (opts\<lparr>o_tick_ms := n\<rparr>) b)" for l ls
      using on by (simp split: option.split)
    have if_explained: "explained_code x \<Longrightarrow> explained_code y \<Longrightarrow> explained_code (if c then x else y)"
      for c x y by simp
    show ?thesis
      unfolding Cons parse_args.simps(2) by (intro if_explained on t) simp_all
  qed
qed

lemma launch_of_explained: "explained_code (launch_of args env)"
  using parse_args_explained [of args default_options True]
  by (cases "parse_args args default_options True") (simp_all add: launch_of_def Let_def)

text \<open>
  A run that ends with 0 and no text is one that served until it was stopped, from a state the
  daemon reached; every other end is the help, a complaint, or introspection data GIO refused.
\<close>

lemma daemon_main_ends:
  assumes "daemon_main os gid ba xml bus reg reply es args env = Some (code, msg, d)"
  shows "(case d of
      Some d' \<Rightarrow> code = 0 \<and> xml \<and> (\<exists>opts d0. daemon_reachable os gid ba opts d0 \<and> d' = daemon_stop d0
                \<and> (o_mac opts \<noteq> '''' \<or> o_self_test opts))
    | None \<Rightarrow> code = 0 \<and> msg = daemon_usage \<or> code = 1 \<and> \<not> xml \<or> code = 2 \<and> msg \<noteq> '''')"
proof (cases "launch_of args env")
  case (ExitCode c m)
  with assms launch_of_explained [of args env] show ?thesis by (auto simp: daemon_main_def explained_code_def)
next
  case (Launch opts b)
  show ?thesis
  proof (cases xml)
    case True
    let ?d = "fold (daemon_handle os gid ba) es (daemon_start os gid ba bus reg reply opts b)"
    have "code = 0" "d = Some (daemon_stop ?d)" using assms Launch True by (auto simp: daemon_main_def ds_start_def)
    moreover have "daemon_reachable os gid ba opts ?d" by (rule daemon_reachable_fold [OF daemon_reachable.started])
    ultimately show ?thesis using launch_of_Launch(3) [OF Launch] True by auto
  next
    case False
    with assms Launch show ?thesis by (auto simp: daemon_main_def ds_start_def)
  qed
qed (use assms in \<open>simp add: daemon_main_def\<close>)

lemma launch_env_last:
  "parse_args args default_options True = Launch opts b \<Longrightarrow> o_mac opts \<noteq> '''' \<Longrightarrow>
   launch_of args env = Launch opts b"
  by (simp add: launch_of_def)

end
