(* ===== verification/Introspection.thy ===== *)
theory Introspection
  imports Battery_Provider
begin

text \<open>
  The bus interfaces the daemon declares: the introspection data in \<open>dbus_service.cpp\<close> and
  \<open>battery_provider.cpp\<close>, letter by letter, with a reader of its elements, and the types of
  D-Bus. The lemmas say that every declared property is answered with a value of the declared
  type and nothing else is, that the properties signalled are the ones not annotated
  otherwise, and that the object paths used are legal.
\<close>

section \<open>The declarations\<close>

definition kBusName :: string where
  "kBusName = ''io.github.scott8420.Airprobe''"

definition kObjectPath :: string where
  "kObjectPath = ''/io/github/scott8420/Airprobe''"

definition kInterface :: string where
  "kInterface = ''io.github.scott8420.Airprobe1''"

definition kOmIface :: string where
  "kOmIface = ''org.freedesktop.DBus.ObjectManager''"

definition kProviderIface :: string where
  "kProviderIface = ''org.bluez.BatteryProvider1''"

text \<open>The raw string starts with a line end.\<close>

definition kIntrospectionXml :: string where
  "kIntrospectionXml = unlines ['''',
     ''<node>'',
     ''  <interface name=\"io.github.scott8420.Airprobe1\">'',
     ''    <property name=\"Address\"       type=\"s\"       access=\"read\"/>'',
     ''    <property name=\"Phase\"         type=\"s\"       access=\"read\"/>'',
     ''    <property name=\"ChannelOpen\"   type=\"b\"       access=\"read\"/>'',
     ''    <property name=\"Status\"        type=\"s\"       access=\"read\"/>'',
     ''    <property name=\"HaveBattery\"   type=\"b\"       access=\"read\"/>'',
     ''    <property name=\"ParseRefusals\" type=\"i\"       access=\"read\"/>'',
     ''    <property name=\"Components\"    type=\"a{sa{sv}}\" access=\"read\"/>'',
     ''    <property name=\"BatteryAgeMs\"  type=\"x\"       access=\"read\">'',
     ''      <annotation name=\"org.freedesktop.DBus.Property.EmitsChangedSignal\"'',
     ''                  value=\"false\"/>'',
     ''    </property>'',
     ''  </interface>'',
     ''</node>'']"

definition kOmXml :: string where
  "kOmXml = concat [
     ''<node>'',
     ''  <interface name='org.freedesktop.DBus.ObjectManager'>'',
     ''    <method name='GetManagedObjects'>'',
     ''      <arg name='objects' type='a{oa{sa{sv}}}' direction='out'/>'',
     ''    </method>'',
     ''    <signal name='InterfacesAdded'>'',
     ''      <arg name='object' type='o'/>'',
     ''      <arg name='interfaces' type='a{sa{sv}}'/>'',
     ''    </signal>'',
     ''    <signal name='InterfacesRemoved'>'',
     ''      <arg name='object' type='o'/>'',
     ''      <arg name='interfaces' type='as'/>'',
     ''    </signal>'',
     ''  </interface>'',
     ''</node>'']"

definition kBatteryXml :: string where
  "kBatteryXml = concat [
     ''<node>'',
     ''  <interface name='org.bluez.BatteryProvider1'>'',
     ''    <property name='Device' type='o' access='read'/>'',
     ''    <property name='Percentage' type='y' access='read'/>'',
     ''    <property name='Source' type='s' access='read'/>'',
     ''  </interface>'',
     ''</node>'']"

section \<open>Reading them\<close>

text \<open>The tags of a text, without their angle brackets, and the name and attributes of a tag.\<close>

fun tags :: "string \<Rightarrow> string option \<Rightarrow> string list" where
  "tags [] w = []"
| "tags (c # s) None = (if c = CHR ''<'' then tags s (Some []) else tags s None)"
| "tags (c # s) (Some w) = (if c = CHR ''>'' then rev w # tags s None else tags s (Some (c # w)))"

definition blank_c :: "char \<Rightarrow> bool" where
  "blank_c c \<longleftrightarrow> c = CHR '' '' \<or> c = newline"

fun pieces :: "string \<Rightarrow> string \<Rightarrow> string list" where
  "pieces [] w = [rev w]"
| "pieces (c # s) w = (if c = CHR 0x22 \<or> c = CHR 0x27 then rev w # pieces s [] else pieces s (c # w))"

definition last_word :: "string \<Rightarrow> string" where
  "last_word w = rev (takeWhile (\<lambda>c. \<not> blank_c c) (rev w))"

fun attributes :: "string list \<Rightarrow> (string \<times> string) list" where
  "attributes (k # v # ps) = (last_word (butlast k), v) # attributes ps"
| "attributes _ = []"

type_synonym xml_element = "string \<times> (string \<times> string) list"

definition element :: "string \<Rightarrow> xml_element" where
  "element t = (takeWhile (\<lambda>c. \<not> blank_c c) t, attributes (pieces t []))"

definition elements :: "string \<Rightarrow> xml_element list" where
  "elements text = map element (tags text None)"

text \<open>
  A declared property: its name, its type, and whether a change is signalled, which it is
  unless the annotation inside the property says otherwise.
\<close>

fun silent :: "xml_element list \<Rightarrow> bool" where
  "silent ((n, as) # es) \<longleftrightarrow> n = ''annotation'' \<and>
     map_of as ''name'' = Some ''org.freedesktop.DBus.Property.EmitsChangedSignal'' \<and>
     map_of as ''value'' = Some ''false''"
| "silent [] \<longleftrightarrow> False"

fun declared :: "xml_element list \<Rightarrow> (string \<times> string \<times> bool) list" where
  "declared [] = []"
| "declared ((n, as) # es) =
     (if n = ''property'' then (the (map_of as ''name''), the (map_of as ''type''), \<not> silent es) # declared es
      else declared es)"

definition properties_of :: "string \<Rightarrow> (string \<times> string \<times> bool) list" where
  "properties_of xml = declared (elements xml)"

definition interfaces_of :: "string \<Rightarrow> string list" where
  "interfaces_of xml = List.map_filter (\<lambda>(n, as). if n = ''interface'' then map_of as ''name'' else None) (elements xml)"

definition arguments_of :: "string \<Rightarrow> (string \<times> string) list" where
  "arguments_of xml = List.map_filter (\<lambda>(n, as). if n = ''arg''
     then Some (the (map_of as ''name''), the (map_of as ''type'')) else None) (elements xml)"

lemma service_properties:
  "properties_of kIntrospectionXml =
    [(''Address'', ''s'', True), (''Phase'', ''s'', True), (''ChannelOpen'', ''b'', True),
     (''Status'', ''s'', True), (''HaveBattery'', ''b'', True), (''ParseRefusals'', ''i'', True),
     (''Components'', ''a{sa{sv}}'', True), (''BatteryAgeMs'', ''x'', False)]"
  by code_simp

lemma battery_declared:
  "properties_of kBatteryXml = [(''Device'', ''o'', True), (''Percentage'', ''y'', True), (''Source'', ''s'', True)]"
  by code_simp

lemma manager_declared:
  "arguments_of kOmXml = [(''objects'', ''a{oa{sa{sv}}}''), (''object'', ''o''), (''interfaces'', ''a{sa{sv}}''),
     (''object'', ''o''), (''interfaces'', ''as'')]"
  by code_simp

lemma interface_names:
  "interfaces_of kIntrospectionXml = [kInterface]" "interfaces_of kOmXml = [kOmIface]"
  "interfaces_of kBatteryXml = [kProviderIface]"
  by code_simp+

section \<open>Types of the bus\<close>

datatype bus_type =
    TString | TBoolean | TByte | TInt32 | TInt64 | TObjectPath | TVariant
  | TArray bus_type | TDict bus_type bus_type

fun signature_of :: "bus_type \<Rightarrow> string" where
  "signature_of TString = ''s''"
| "signature_of TBoolean = ''b''"
| "signature_of TByte = ''y''"
| "signature_of TInt32 = ''i''"
| "signature_of TInt64 = ''x''"
| "signature_of TObjectPath = ''o''"
| "signature_of TVariant = ''v''"
| "signature_of (TArray t) = ''a'' @ signature_of t"
| "signature_of (TDict k v) = ''a{'' @ signature_of k @ signature_of v @ ''}''"

lemma signature_not_brace: "\<exists>c u. signature_of t = c # u \<and> c \<noteq> CHR ''{''"
  by (cases t) auto

lemma signature_prefix_free: "signature_of t @ x = signature_of u @ y \<Longrightarrow> t = u \<and> x = y"
proof (induction t arbitrary: u x y)
  case (TArray t)
  obtain c w where "signature_of t = c # w" "c \<noteq> CHR ''{''" using signature_not_brace [of t] by blast
  with TArray show ?case by (cases u) auto
next
  case (TDict k v)
  show ?case
  proof (cases u)
    case (TArray w)
    obtain c r where "signature_of w = c # r" "c \<noteq> CHR ''{''" using signature_not_brace [of w] by blast
    with TDict.prems TArray show ?thesis by auto
  next
    case (TDict k' v')
    with TDict.prems have "signature_of k @ signature_of v @ ''}'' @ x = signature_of k' @ signature_of v' @ ''}'' @ y"
      by simp
    from TDict.IH(1) [OF this] have "k = k'" "signature_of v @ ''}'' @ x = signature_of v' @ ''}'' @ y" by auto
    with TDict.IH(2) [OF this(2)] TDict show ?thesis by simp
  qed (use TDict.prems in auto)
qed (case_tac u; auto)+

lemma signature_inject: "signature_of t = signature_of u \<longleftrightarrow> t = u"
  using signature_prefix_free [of t "[]" u "[]"] by auto

text \<open>An object path: elements of letters, digits and underscores after single slashes.\<close>

definition path_char :: "char \<Rightarrow> bool" where
  "path_char c \<longleftrightarrow> isdigit_c c \<or> CHR ''A'' \<le> c \<and> c \<le> CHR ''Z'' \<or> CHR ''a'' \<le> c \<and> c \<le> CHR ''z'' \<or> c = CHR ''_''"

fun path_rest :: "bool \<Rightarrow> string \<Rightarrow> bool" where
  "path_rest some [] = some"
| "path_rest some (c # s) = (if c = CHR ''/'' then some \<and> path_rest False s else path_char c \<and> path_rest True s)"

fun object_path_ok :: "string \<Rightarrow> bool" where
  "object_path_ok [] = False"
| "object_path_ok (c # s) = (c = CHR ''/'' \<and> (s = [] \<or> path_rest False s))"

fun key_ok :: "bus_type \<Rightarrow> string \<Rightarrow> bool" where
  "key_ok TString k = True"
| "key_ok TObjectPath k = object_path_ok k"
| "key_ok _ k = False"

text \<open>A value inside a variant has any type.\<close>

inductive has_type :: "gvariant \<Rightarrow> bus_type \<Rightarrow> bool" where
  string: "has_type (VString s) TString"
| boolean: "has_type (VBoolean b) TBoolean"
| byte: "has_type (VByte b) TByte"
| int32: "has_type (VInt32 i) TInt32"
| int64: "has_type (VInt64 i) TInt64"
| object_path: "object_path_ok p \<Longrightarrow> has_type (VObjectPath p) TObjectPath"
| dict: "(\<And>k g. (k, g) \<in> set d \<Longrightarrow> key_ok kt k \<and> has_type g vt) \<Longrightarrow> has_type (VDict d) (TDict kt vt)"
| variant: "has_type g t \<Longrightarrow> has_type g TVariant"

inductive_simps has_type_simps [simp]:
  "has_type g TString" "has_type g TBoolean" "has_type g TByte" "has_type g TInt32" "has_type g TInt64"
  "has_type g TObjectPath" "has_type (VDict d) (TDict kt vt)"

inductive_cases has_typeE: "has_type g (TDict kt vt)" "has_type g TVariant"

lemma variantI:
  "has_type (VString s) TVariant" "has_type (VBoolean b) TVariant" "has_type (VByte y) TVariant"
  by (rule variant, rule string boolean byte)+

lemma variant_pathI: "object_path_ok p \<Longrightarrow> has_type (VObjectPath p) TVariant"
  by (rule variant [OF object_path])

abbreviation (input) TVardict :: bus_type where
  "TVardict \<equiv> TDict TString TVariant"

lemma component_typed: "has_type (component_variant c) TVardict"
  by (auto simp: component_variant_def variantI split: option.split)

lemma components_typed: "has_type (components_variant m) (TDict TString TVardict)"
  using component_typed by (auto simp: components_variant_def)

text \<open>A value answers a declaration if it has the declared type.\<close>

definition answers_type :: "string \<Rightarrow> gvariant \<Rightarrow> bool" where
  "answers_type t g \<longleftrightarrow> (\<exists>ty. signature_of ty = t \<and> has_type g ty)"

lemma answers_typeI: "has_type g ty \<Longrightarrow> signature_of ty = t \<Longrightarrow> answers_type t g"
  by (auto simp: answers_type_def)

lemma answers_simps:
  "answers_type ''s'' (VString s)" "answers_type ''b'' (VBoolean b)" "answers_type ''i'' (VInt32 i)"
  "answers_type ''x'' (VInt64 i)" "answers_type ''y'' (VByte y)"
  "answers_type ''a{sa{sv}}'' (components_variant m)"
  by (rule answers_typeI, rule string boolean int32 int64 byte components_typed, simp)+


section \<open>The battery provider's objects\<close>

text \<open>The answer to \<open>GetManagedObjects\<close> as one value.\<close>

definition om_reply :: "provider \<Rightarrow> gvariant" where
  "om_reply p = VDict (map (\<lambda>(path, props). (path, VDict [(kProviderIface, VDict props)]))
     (the (om_method_call ''GetManagedObjects'' p)))"

definition mac_char :: "char \<Rightarrow> bool" where
  "mac_char c \<longleftrightarrow> isdigit_c c \<or> CHR ''A'' \<le> c \<and> c \<le> CHR ''F'' \<or> CHR ''a'' \<le> c \<and> c \<le> CHR ''f'' \<or> c = CHR '':''"

lemma paths_legal: "object_path_ok kObjectPath" "prefix (kObjectPath @ ''/'') kProviderRoot"
  by code_simp+

lemma leaf_char: "mac_char c \<Longrightarrow> toupper_c c \<noteq> CHR '':'' \<Longrightarrow> path_char (toupper_c c)"
proof -
  assume m: "mac_char c" and n: "toupper_c c \<noteq> CHR '':''"
  show "path_char (toupper_c c)"
  proof (cases "97 \<le> (of_char c :: nat) \<and> (of_char c :: nat) \<le> 122")
    case True
    then have "(of_char c - 32) mod 256 = (of_char c - 32 :: nat)" by (intro mod_less) linarith
    with True have "(of_char (toupper_c c) :: nat) = of_char c - 32" by (simp add: toupper_c_def)
    with True have "65 \<le> (of_char (toupper_c c) :: nat) \<and> (of_char (toupper_c c) :: nat) \<le> 90" by linarith
    then show ?thesis by (simp add: path_char_def less_eq_char_def)
  next
    case False
    then have "toupper_c c = c" by (auto simp: toupper_c_def Let_def)
    with m n False show ?thesis by (auto simp: mac_char_def path_char_def less_eq_char_def)
  qed
qed

lemma path_char_underscore [simp]: "path_char CHR ''_''"
  by (simp add: path_char_def)

lemma path_char_slash: "path_char c \<Longrightarrow> c \<noteq> CHR ''/''"
  by (auto simp: path_char_def isdigit_c_def less_eq_char_def)

lemma path_rest_chars: "list_all path_char s \<Longrightarrow> path_rest b s \<longleftrightarrow> b \<or> s \<noteq> []"
  by (induction s arbitrary: b) (auto dest: path_char_slash)

lemma path_rest_append: "path_rest b (s @ CHR ''/'' # t) \<longleftrightarrow> path_rest b s \<and> path_rest False t"
  by (induction s arbitrary: b) auto

lemma object_path_append: "object_path_ok (s @ CHR ''/'' # t) \<longleftrightarrow> s = [] \<and> t = [] \<or> path_rest False t \<and> (s = [] \<or> tl s \<noteq> [] \<and> object_path_ok s)"
  by (cases s; cases "tl s") (auto simp: path_rest_append)

lemma leaf_legal: "list_all mac_char mac \<Longrightarrow> list_all path_char (dev_leaf (upper (upper mac)))"
proof -
  assume "list_all mac_char mac"
  then have "list_all path_char (map (\<lambda>c. if c = CHR '':'' then CHR ''_'' else c) (upper (upper mac)))"
    by (auto simp: list_all_iff upper_def leaf_char)
  moreover have "list_all path_char ''dev_''" by code_simp
  ultimately show ?thesis unfolding dev_leaf_def list_all_append by blast
qed

lemma object_legal:
  assumes "list_all mac_char mac"
  shows "object_path_ok (kProviderRoot @ ''/'' @ dev_leaf (upper (upper mac)))"
proof -
  have "path_rest False (dev_leaf (upper (upper mac)))"
    using path_rest_chars [OF leaf_legal [OF assms]] by (simp add: dev_leaf_def)
  moreover have "object_path_ok kProviderRoot" "tl kProviderRoot \<noteq> []" by code_simp+
  ultimately show ?thesis by (simp add: object_path_append)
qed

text \<open>Where the device path comes from: an object of one of BlueZ's answers, with our address.\<close>

fun event_objects :: "provider_event \<Rightarrow> managed" where
  "event_objects (BpAppeared reply) = (case reply of None \<Rightarrow> [] | Some objs \<Rightarrow> objs)"
| "event_objects (BpPublish reply reg v) = (case reply of None \<Rightarrow> [] | Some objs \<Rightarrow> objs)"
| "event_objects _ = []"

definition located_at :: "string \<Rightarrow> (string \<Rightarrow> bool) \<Rightarrow> provider \<Rightarrow> bool" where
  "located_at mac Q p \<longleftrightarrow> provider_inv p \<and> bp_mac p = upper mac \<and>
     bp_object p = kProviderRoot @ ''/'' @ dev_leaf (upper (upper mac)) \<and> (bp_device p \<noteq> '''' \<longrightarrow> Q (bp_device p))"

text \<open>One object: the device becomes its path if it is ours and none was found before.\<close>

lemma resolve_loop_step:
  "\<exists>a'. resolve_loop mac ((path, x) # objs) (a, d) =
     resolve_loop mac objs (a', if d = '''' \<and> is_ours mac (path, x) then path else d)"
  by (auto simp: is_ours_def Let_def split: option.split)

lemma resolve_loop_device:
  assumes "\<And>o'. o' \<in> set objs \<Longrightarrow> is_ours mac o' \<Longrightarrow> Q (fst o')" and "d \<noteq> '''' \<Longrightarrow> Q d"
  shows "snd (resolve_loop mac objs (a, d)) \<noteq> '''' \<Longrightarrow> Q (snd (resolve_loop mac objs (a, d)))"
  using assms
proof (induction objs arbitrary: a d)
  case Nil
  then show ?case by simp
next
  case (Cons o' objs)
  obtain path x where o': "o' = (path, x)" by (cases o')
  let ?d = "if d = '''' \<and> is_ours mac (path, x) then path else d"
  obtain a' where step: "resolve_loop mac (o' # objs) (a, d) = resolve_loop mac objs (a', ?d)"
    using resolve_loop_step [of mac path x objs a d] by (auto simp: o')
  have "?d \<noteq> '''' \<Longrightarrow> Q ?d" using Cons.prems(2) [of o'] Cons.prems(3) by (auto simp: o' split: if_splits)
  with Cons.IH [of a' ?d] Cons.prems(1,2) show ?case unfolding step by (metis list.set_intros(2))
qed

lemma located_resolve:
  assumes "located_at mac Q p" and "\<And>o'. o' \<in> set (case reply of None \<Rightarrow> [] | Some objs \<Rightarrow> objs) \<Longrightarrow> is_ours (upper mac) o' \<Longrightarrow> Q (fst o')"
    and "bp_exported p \<Longrightarrow> False"
  shows "located_at mac Q (snd (resolve_paths reply p))"
proof (cases reply)
  case None
  with assms(1) show ?thesis by (simp add: resolve_paths_def)
next
  case (Some objs)
  have "snd (resolve_loop (upper mac) objs ('''', '''')) \<noteq> '''' \<Longrightarrow> Q (snd (resolve_loop (upper mac) objs ('''', '''')))"
    using resolve_loop_device [of objs "upper mac" Q "''''" "''''"] assms(2) Some by auto
  with assms(1,3) show ?thesis
    by (auto simp: located_at_def resolve_paths_def Some case_prod_unfold Let_def provider_inv_def)
qed

lemma located_other:
  "located_at mac Q p \<Longrightarrow> bp_mac p' = bp_mac p \<Longrightarrow> bp_object p' = bp_object p \<Longrightarrow>
   bp_device p' = bp_device p \<or> bp_device p' = '''' \<Longrightarrow> provider_inv p' \<Longrightarrow> located_at mac Q p'"
  by (auto simp: located_at_def)

lemma bp_ops_keep [simp]:
  "bp_mac (add_object reg p) = bp_mac p" "bp_object (add_object reg p) = bp_object p"
  "bp_mac (remove_object p) = bp_mac p" "bp_object (remove_object p) = bp_object p" "bp_device (remove_object p) = bp_device p"
  "bp_mac (emit_properties_changed p) = bp_mac p" "bp_object (emit_properties_changed p) = bp_object p"
  "bp_device (emit_properties_changed p) = bp_device p"
  by (simp_all add: add_object_def remove_object_def emit_properties_changed_def Let_def)

lemma bp_publish_after_located:
  "provider_ready p \<Longrightarrow> bp_mac (bp_publish reply reg v p) = bp_mac (located reply p)
     \<and> bp_object (bp_publish reply reg v p) = bp_object (located reply p)
     \<and> bp_device (bp_publish reply reg v p) = bp_device (located reply p)"
  by (simp add: bp_publish_ready Let_def)

lemma located_handle:
  assumes p: "located_at mac Q p"
    and q: "\<And>o'. o' \<in> set (event_objects e) \<Longrightarrow> is_ours (upper mac) o' \<Longrightarrow> Q (fst o')"
  shows "located_at mac Q (bp_handle e p)"
proof (cases e)
  case (BpAppeared reply)
  have "located_at mac Q (snd (resolve_paths reply p))" if "\<not> bp_registered p"
    using p q that by (intro located_resolve) (auto simp: BpAppeared located_at_def provider_inv_def)
  then show ?thesis
    using p by (auto simp: BpAppeared register_with_bluez_def case_prod_unfold Let_def located_at_def provider_inv_def)
next
  case BpVanished
  then show ?thesis using p by (auto simp: located_at_def on_bluez_vanished_def provider_inv_def Let_def)
next
  case (BpRegisterDone a)
  then show ?thesis using p by (auto simp: located_at_def on_register_done_def provider_inv_def)
next
  case (BpPublish reply reg v)
  have inv: "provider_inv (bp_publish reply reg v p)" using p provider_inv_publish by (simp add: located_at_def)
  show ?thesis
  proof (cases "provider_ready p")
    case False
    then have "bp_publish reply reg v p = p" by (auto simp: bp_publish_def provider_ready_def)
    with p show ?thesis by (simp add: BpPublish)
  next
    case True
    have "located_at mac Q (located reply p)"
      using p q located_resolve [OF p, of reply] by (auto simp: BpPublish located_def located_at_def provider_inv_def)
    then show ?thesis
      using located_other [OF _ _ _ _ inv] bp_publish_after_located [OF True, of reply reg v] by (simp add: BpPublish)
  qed
qed

text \<open>An event the environment can send: what it says about our device satisfies \<open>Q\<close>.\<close>

definition says :: "string \<Rightarrow> (string \<Rightarrow> bool) \<Rightarrow> provider_event \<Rightarrow> bool" where
  "says mac Q e \<longleftrightarrow> (\<forall>o' \<in> set (event_objects e). is_ours (upper mac) o' \<longrightarrow> Q (fst o'))"

interpretation located: guarded_handler bp_handle "located_at mac Q" "says mac Q" for mac Q
  by unfold_locales (simp add: located_handle says_def)

lemma located_new: "located_at mac Q (snd (bp_start bus reg (new_provider mac)))"
  using provider_inv_new [of bus reg mac]
  by (simp add: located_at_def bp_start_def new_provider_def Let_def)

lemma battery_answers:
  assumes "object_path_ok (bp_device p)"
  shows "(case battery_get_property k p of
      None \<Rightarrow> map_of (properties_of kBatteryXml) k = None
    | Some g \<Rightarrow> \<exists>t. map_of (properties_of kBatteryXml) k = Some (t, True) \<and> answers_type t g)"
proof -
  have "answers_type ''o'' (VObjectPath (bp_device p))" using object_path [OF assms] by (rule answers_typeI) simp
  moreover consider "k = ''Device''" | "k = ''Percentage''" | "k = ''Source''"
    | "k \<noteq> ''Device''" "k \<noteq> ''Percentage''" "k \<noteq> ''Source''" by blast
  ultimately show ?thesis
    unfolding battery_declared by cases (simp_all add: battery_get_property_def answers_simps)
qed

lemma om_reply_typed:
  assumes "bp_exported p \<Longrightarrow> object_path_ok (bp_object p) \<and> object_path_ok (bp_device p)"
  shows "answers_type ''a{oa{sa{sv}}}'' (om_reply p)"
proof -
  have "has_type (VDict (battery_properties p)) TVardict" if "bp_exported p"
    using assms that by (auto simp: battery_properties_def variantI variant_pathI)
  then have "has_type (om_reply p) (TDict TObjectPath (TDict TString TVardict))"
    using assms by (cases "bp_exported p") (simp_all add: om_reply_def om_method_call_def)
  then show ?thesis by (rule answers_typeI) simp
qed

text \<open>
  C30: The battery object is legal. For an address of hexadecimal digits and colons, and as long
  as BlueZ names objects by legal paths, the object lies beneath the provider's root under a
  legal path; while it is announced it stands for a device with our address that BlueZ listed
  in one of its answers; and every answer, to a read of a property or to
  \<open>GetManagedObjects\<close>, has the declared type.
\<close>

theorem battery_object_legal:
  assumes "list_all mac_char mac"
    and "\<forall>e \<in> set es. \<forall>o' \<in> set (event_objects e). object_path_ok (fst o')"
    and "p = fold bp_handle es (snd (bp_start bus reg (new_provider mac)))"
  shows "object_path_ok (bp_object p) \<and> prefix (kProviderRoot @ ''/'') (bp_object p)
    \<and> map_of (arguments_of kOmXml) ''objects'' = Some ''a{oa{sa{sv}}}'' \<and> answers_type ''a{oa{sa{sv}}}'' (om_reply p)
    \<and> (bp_exported p \<longrightarrow>
        (\<exists>e \<in> set es. \<exists>x. (bp_device p, x) \<in> set (event_objects e) \<and> is_ours (upper mac) (bp_device p, x))
        \<and> (case battery_get_property k p of
            None \<Rightarrow> map_of (properties_of kBatteryXml) k = None
          | Some g \<Rightarrow> \<exists>t. map_of (properties_of kBatteryXml) k = Some (t, True) \<and> answers_type t g))"
proof -
  define Q where "Q path \<longleftrightarrow> (\<exists>e \<in> set es. \<exists>x. (path, x) \<in> set (event_objects e) \<and> is_ours (upper mac) (path, x))" for path
  have "list_all (says mac Q) es" by (fastforce simp: list_all_iff says_def Q_def)
  then have l: "located_at mac Q p" using located.fold_allowed [OF _ located_new] assms(3) by simp
  then have obj: "bp_object p = kProviderRoot @ ''/'' @ dev_leaf (upper (upper mac))"
    and dev: "bp_exported p \<Longrightarrow> Q (bp_device p)" by (auto simp: located_at_def provider_inv_def)
  have o': "object_path_ok (bp_object p)" using object_legal [OF assms(1)] by (simp only: obj)
  have d: "object_path_ok (bp_device p)" if "bp_exported p"
    using dev [OF that] assms(2) by (fastforce simp: Q_def)
  have "prefix (kProviderRoot @ ''/'') (bp_object p)" unfolding obj by simp
  then show ?thesis
    using o' d dev om_reply_typed [of p] battery_answers [of p k] by (simp add: Q_def manager_declared)
qed

definition sample_events :: "provider_event list" where
  "sample_events = [BpAppeared (Some sample_objects), BpRegisterDone True, BpPublish None 5 (snapshot attached_pump)]"

theorem battery_object_legal_witness:
  "let p = fold bp_handle sample_events (snd (bp_start True 1 (new_provider ''AA:BB:CC:DD:EE:FF'')))
   in bp_exported p \<and> object_path_ok (bp_object p)
      \<and> (\<exists>x. (bp_device p, x) \<in> set sample_objects \<and> is_ours ''AA:BB:CC:DD:EE:FF'' (bp_device p, x))"
proof -
  let ?mac = "''AA:BB:CC:DD:EE:FF''"
  let ?p = "fold bp_handle sample_events (snd (bp_start True 1 (new_provider ?mac)))"
  have ev: "\<forall>e \<in> set sample_events. set (event_objects e) \<subseteq> set sample_objects"
    by (simp add: sample_events_def)
  have "list_all (\<lambda>o'. object_path_ok (fst o')) sample_objects" by code_simp
  with ev have ok: "\<forall>e \<in> set sample_events. \<forall>o' \<in> set (event_objects e). object_path_ok (fst o')"
    by (auto simp: list_all_iff)
  have mac: "list_all mac_char ?mac" "upper ?mac = ?mac" by code_simp+
  have x: "bp_exported ?p" by code_simp
  note L = battery_object_legal [OF mac(1) ok refl, of True 1 "''Source''"]
  have o': "object_path_ok (bp_object ?p)" by (rule conjunct1 [OF L])
  obtain e ifaces where e: "e \<in> set sample_events" "(bp_device ?p, ifaces) \<in> set (event_objects e)"
    "is_ours (upper ?mac) (bp_device ?p, ifaces)"
    using L x by (elim conjE impE bexE exE) assumption+
  have "(bp_device ?p, ifaces) \<in> set sample_objects" by (rule subsetD [OF bspec [OF ev e(1)] e(2)])
  then have "\<exists>x. (bp_device ?p, x) \<in> set sample_objects \<and> is_ours ?mac (bp_device ?p, x)"
    using e(3) unfolding mac(2) by (intro exI conjI)
  with x o' show ?thesis unfolding Let_def by (intro conjI)
qed

end
