(* ===== verification/Tile.thy ===== *)
theory Tile
  imports Tile_Format
begin

text \<open>
  The Quick Settings tile of the Shell extension: \<open>extension.js\<close> under \<open>shell-extension\<close>. GIO and
  GLib are inputs: the identifiers of timeout sources (\<open>gid\<close>) and of signal handlers (\<open>hid\<close>),
  and the order in which asynchronous calls complete, each of them only once and only if it was
  made. An event carries what the proxy has cached at that moment. Once a cancellable is
  cancelled, a call made with it completes with the error that says so. The lemmas say when the
  refresh timer runs, that an age is never shown that was not just read, and what is left after
  the daemon has gone or the extension is disabled.
\<close>

section \<open>Rendering\<close>

record tile_face =
  f_visible :: bool
  f_subtitle :: string
  f_header :: string
  f_checked :: bool
  f_warning :: bool
  f_detail :: string

text \<open>What \<open>AirprobeToggle\<close> is built with, and its \<open>render\<close>.\<close>

definition new_face :: tile_face where
  "new_face = \<lparr>f_visible = True, f_subtitle = ''Starting'' @ ELLIPSIS, f_header = '''', f_checked = False,
     f_warning = False, f_detail = ''''\<rparr>"

definition toggle_render :: "tile_view \<Rightarrow> tile_face" where
  "toggle_render w =
    (let warn = has_warning w in
     \<lparr>f_visible = w_present w, f_subtitle = subtitle w, f_header = header_subtitle w,
      f_checked = (w_channel_open w \<and> w_have_battery w), f_warning = warn,
      f_detail = (if warn then warning_text w else ''Phase: '' @ w_phase w)\<rparr>)"

section \<open>State\<close>

text \<open>
  \<open>AirprobeIndicator\<close>, and of its surroundings: the timeout sources that are live, the number of
  proxies made and which are connected to a handler, and the calls in flight.
\<close>

record tile =
  t_proxy :: "nat option"
  t_props_id :: nat
  t_stale_timer :: nat
  t_cancelled :: bool
  t_age_ms :: int
  t_watch_id :: nat
  t_view :: tile_view
  t_face :: tile_face
  t_added :: nat
  t_live :: "nat list"
  t_proxies :: nat
  t_connected :: "(nat \<times> nat) list"
  t_making :: nat
  t_reading :: nat

type_synonym bus_cache = "string \<Rightarrow> gvariant option"

text \<open>
  \<open>_cached\<close>: without a proxy, or when the proxy has no value, the fallback. A value of another
  type than the declared one does not come from the service (\<open>interface_kept\<close>).
\<close>

definition cached :: "bus_cache \<Rightarrow> tile \<Rightarrow> string \<Rightarrow> gvariant option" where
  "cached cache t name = (if t_proxy t = None then None else cache name)"

fun cached_string :: "gvariant option \<Rightarrow> string \<Rightarrow> string" where
  "cached_string (Some (VString s)) fallback = s"
| "cached_string _ fallback = fallback"

fun cached_bool :: "gvariant option \<Rightarrow> bool \<Rightarrow> bool" where
  "cached_bool (Some (VBoolean b)) fallback = b"
| "cached_bool _ fallback = fallback"

fun cached_int :: "gvariant option \<Rightarrow> int \<Rightarrow> int" where
  "cached_int (Some (VInt32 i)) fallback = i"
| "cached_int _ fallback = fallback"

definition tile_view_of :: "bus_cache \<Rightarrow> bool \<Rightarrow> tile \<Rightarrow> tile_view" where
  "tile_view_of cache present t =
     \<lparr>w_present = present,
      w_phase = cached_string (cached cache t ''Phase'') ''closed'',
      w_channel_open = cached_bool (cached cache t ''ChannelOpen'') False,
      w_status = cached_string (cached cache t ''Status'') '''',
      w_have_battery = cached_bool (cached cache t ''HaveBattery'') False,
      w_parse_refusals = cached_int (cached cache t ''ParseRefusals'') 0,
      w_age_ms = Some (t_age_ms t),
      w_components = components_from_dbus (Some (case cached cache t ''Components'' of
          None \<Rightarrow> JObject [] | Some v \<Rightarrow> unpack v))\<rparr>"

text \<open>There is an ageing number on screen.\<close>

definition ageing :: "tile_view \<Rightarrow> bool" where
  "ageing w \<longleftrightarrow> w_present w \<and> w_have_battery w \<and> \<not> w_channel_open w"

definition tile_render :: "(nat \<Rightarrow> nat) \<Rightarrow> bus_cache \<Rightarrow> bool \<Rightarrow> tile \<Rightarrow> tile" where
  "tile_render gid cache present t =
    (let w = tile_view_of cache present t;
         t = t\<lparr>t_view := w, t_face := toggle_render w\<rparr> in
     if ageing w \<and> t_stale_timer t = 0 then
       t\<lparr>t_stale_timer := gid (t_added t), t_added := Suc (t_added t), t_live := t_live t @ [gid (t_added t)]\<rparr>
     else if \<not> ageing w \<and> t_stale_timer t \<noteq> 0 then
       t\<lparr>t_live := filter (\<lambda>i. i \<noteq> t_stale_timer t) (t_live t), t_stale_timer := 0\<rparr>
     else t)"

definition no_view :: tile_view where
  "no_view = \<lparr>w_present = False, w_phase = '''', w_channel_open = False, w_status = '''', w_have_battery = False,
     w_parse_refusals = 0, w_age_ms = None, w_components = []\<rparr>"

text \<open>The constructor; \<open>watch\<close> is the identifier of the name watch.\<close>

definition new_tile :: "(nat \<Rightarrow> nat) \<Rightarrow> nat \<Rightarrow> tile" where
  "new_tile gid watch =
     tile_render gid (\<lambda>_. None) False
       \<lparr>t_proxy = None, t_props_id = 0, t_stale_timer = 0, t_cancelled = False, t_age_ms = -1, t_watch_id = watch,
        t_view = no_view, t_face = new_face, t_added = 0, t_live = [], t_proxies = 0, t_connected = [],
        t_making = 0, t_reading = 0\<rparr>"

section \<open>Callbacks\<close>

definition on_appeared :: "tile \<Rightarrow> tile" where
  "on_appeared t = (if t_proxy t \<noteq> None then t else t\<lparr>t_making := Suc (t_making t)\<rparr>)"

definition drop_proxy :: "tile \<Rightarrow> tile" where
  "drop_proxy t =
    (let t = (case t_proxy t of
                None \<Rightarrow> t
              | Some p \<Rightarrow> if t_props_id t \<noteq> 0
                          then t\<lparr>t_connected := filter (\<lambda>c. c \<noteq> (p, t_props_id t)) (t_connected t), t_props_id := 0\<rparr>
                          else t)
     in t\<lparr>t_proxy := None\<rparr>)"

definition on_vanished :: "(nat \<Rightarrow> nat) \<Rightarrow> bus_cache \<Rightarrow> tile \<Rightarrow> tile" where
  "on_vanished gid cache t = tile_render gid cache False ((drop_proxy t)\<lparr>t_age_ms := -1\<rparr>)"

definition refresh :: "(nat \<Rightarrow> nat) \<Rightarrow> bus_cache \<Rightarrow> tile \<Rightarrow> tile" where
  "refresh gid cache t =
    (if t_proxy t = None then tile_render gid cache False t
     else t\<lparr>t_reading := Suc (t_reading t)\<rparr>)"

text \<open>The callback of \<open>Gio.DBusProxy.new\<close>; \<open>made\<close> is whether GIO could make the proxy.\<close>

definition on_proxy :: "(nat \<Rightarrow> nat) \<Rightarrow> (nat \<Rightarrow> nat) \<Rightarrow> bus_cache \<Rightarrow> bool \<Rightarrow> tile \<Rightarrow> tile" where
  "on_proxy gid hid cache made t =
    (if \<not> made \<or> t_cancelled t then t
     else let p = t_proxies t; h = hid p in
       refresh gid cache
         (t\<lparr>t_proxies := Suc p, t_proxy := Some p, t_props_id := h, t_connected := t_connected t @ [(p, h)]\<rparr>))"

text \<open>The callback of the read of the age; no reply is an error, and it is the cancellation once cancelled.\<close>

definition on_age :: "(nat \<Rightarrow> nat) \<Rightarrow> bus_cache \<Rightarrow> int option \<Rightarrow> tile \<Rightarrow> tile" where
  "on_age gid cache reply t =
    (if t_cancelled t then t
     else tile_render gid cache True (t\<lparr>t_age_ms := (case reply of Some ms \<Rightarrow> ms | None \<Rightarrow> -1)\<rparr>))"

definition tile_destroy :: "tile \<Rightarrow> tile" where
  "tile_destroy t =
    (let t = t\<lparr>t_cancelled := True\<rparr>;
         t = (if t_stale_timer t \<noteq> 0
              then t\<lparr>t_live := filter (\<lambda>i. i \<noteq> t_stale_timer t) (t_live t), t_stale_timer := 0\<rparr> else t);
         t = (if t_watch_id t \<noteq> 0 then t\<lparr>t_watch_id := 0\<rparr> else t)
     in drop_proxy t)"

text \<open>
  What can happen. The watch calls back while it is held, a completed call was in flight, a
  signal comes from a connected proxy, and a timer that fires is live.
\<close>

datatype tile_event =
    Appeared | Vanished | ProxyDone bool | PropertiesChanged nat | AgeDone "int option" | StaleFire | Destroy

fun tile_handle :: "(nat \<Rightarrow> nat) \<Rightarrow> (nat \<Rightarrow> nat) \<Rightarrow> bus_cache \<times> tile_event \<Rightarrow> tile \<Rightarrow> tile" where
  "tile_handle gid hid (cache, Appeared) t = (if t_watch_id t = 0 then t else on_appeared t)"
| "tile_handle gid hid (cache, Vanished) t = (if t_watch_id t = 0 then t else on_vanished gid cache t)"
| "tile_handle gid hid (cache, ProxyDone made) t =
     (if t_making t = 0 then t else on_proxy gid hid cache made (t\<lparr>t_making := t_making t - 1\<rparr>))"
| "tile_handle gid hid (cache, PropertiesChanged p) t =
     (if p \<notin> fst ` set (t_connected t) then t else refresh gid cache t)"
| "tile_handle gid hid (cache, AgeDone reply) t =
     (if t_reading t = 0 then t else on_age gid cache reply (t\<lparr>t_reading := t_reading t - 1\<rparr>))"
| "tile_handle gid hid (cache, StaleFire) t = (if t_live t = [] then t else refresh gid cache t)"
| "tile_handle gid hid (cache, Destroy) t = tile_destroy t"

section \<open>The refresh timer\<close>

definition tile_inv :: "tile \<Rightarrow> bool" where
  "tile_inv t \<longleftrightarrow>
     t_live t = (if t_stale_timer t = 0 then [] else [t_stale_timer t]) \<and>
     (t_stale_timer t \<noteq> 0 \<longleftrightarrow> \<not> t_cancelled t \<and> ageing (t_view t)) \<and>
     (t_cancelled t \<longrightarrow> t_watch_id t = 0 \<and> t_proxy t = None)"

lemma tile_render_sels [simp]:
  "t_view (tile_render gid cache present t) = tile_view_of cache present t"
  "t_face (tile_render gid cache present t) = toggle_render (tile_view_of cache present t)"
  "t_proxy (tile_render gid cache present t) = t_proxy t"
  "t_cancelled (tile_render gid cache present t) = t_cancelled t"
  "t_watch_id (tile_render gid cache present t) = t_watch_id t"
  "t_making (tile_render gid cache present t) = t_making t"
  "t_reading (tile_render gid cache present t) = t_reading t"
  "t_connected (tile_render gid cache present t) = t_connected t"
  by (simp_all add: tile_render_def Let_def)

lemma tile_render_timer:
  assumes "glib_ids gid" "t_live t = (if t_stale_timer t = 0 then [] else [t_stale_timer t])"
  shows "t_live (tile_render gid cache present t) =
      (if t_stale_timer (tile_render gid cache present t) = 0 then [] else [t_stale_timer (tile_render gid cache present t)])"
    and "t_stale_timer (tile_render gid cache present t) \<noteq> 0 \<longleftrightarrow> ageing (tile_view_of cache present t)"
  using assms by (auto simp: tile_render_def Let_def glib_ids_def)

lemma not_ageing [simp]: "\<not> ageing (tile_view_of cache False t)"
  by (simp add: ageing_def tile_view_of_def)

lemma tile_inv_render:
  "glib_ids gid \<Longrightarrow> tile_inv t \<Longrightarrow> \<not> t_cancelled t \<or> \<not> present \<Longrightarrow> tile_inv (tile_render gid cache present t)"
  using tile_render_timer [of gid t cache present] by (auto simp: tile_inv_def)

lemma drop_proxy_sels [simp]:
  "t_proxy (drop_proxy t) = None" "t_live (drop_proxy t) = t_live t" "t_stale_timer (drop_proxy t) = t_stale_timer t"
  "t_cancelled (drop_proxy t) = t_cancelled t" "t_view (drop_proxy t) = t_view t" "t_face (drop_proxy t) = t_face t"
  "t_watch_id (drop_proxy t) = t_watch_id t" "t_making (drop_proxy t) = t_making t" "t_reading (drop_proxy t) = t_reading t"
  by (simp_all add: drop_proxy_def Let_def split: option.split)

lemma tile_inv_same:
  "tile_inv t \<Longrightarrow> t_live u = t_live t \<Longrightarrow> t_stale_timer u = t_stale_timer t \<Longrightarrow> t_cancelled u = t_cancelled t \<Longrightarrow>
   t_view u = t_view t \<Longrightarrow> t_watch_id u = t_watch_id t \<Longrightarrow> t_proxy u = t_proxy t \<or> t_proxy u = None \<or> \<not> t_cancelled t \<Longrightarrow> tile_inv u"
  by (auto simp: tile_inv_def)

lemma tile_inv_refresh: "glib_ids gid \<Longrightarrow> tile_inv t \<Longrightarrow> tile_inv (refresh gid cache t)"
  using tile_inv_render [of gid t False cache] tile_inv_same [of t] by (simp add: refresh_def)

lemma tile_inv_handle:
  assumes g: "glib_ids gid" and t: "tile_inv t"
  shows "tile_inv (tile_handle gid hid ce t)"
proof -
  obtain cache e where ce: "ce = (cache, e)" by (cases ce)
  show ?thesis
  proof (cases e)
    case Appeared
    with t show ?thesis by (auto simp: ce on_appeared_def intro: tile_inv_same)
  next
    case Vanished
    have "tile_inv ((drop_proxy t)\<lparr>t_age_ms := -1\<rparr>)" using t by (auto intro: tile_inv_same)
    with g t Vanished show ?thesis by (simp add: ce on_vanished_def tile_inv_render)
  next
    case (ProxyDone made)
    show ?thesis
    proof (cases "t_making t = 0 \<or> \<not> made \<or> t_cancelled t")
      case True
      then show ?thesis using t ProxyDone by (auto simp: ce on_proxy_def intro: tile_inv_same)
    next
      case False
      then have "tile_inv (t\<lparr>t_making := m, t_proxies := a, t_proxy := b, t_props_id := c, t_connected := d\<rparr>)"
        for m a b c d using t by (auto intro: tile_inv_same)
      with False g ProxyDone show ?thesis by (simp add: ce on_proxy_def Let_def tile_inv_refresh)
    qed
  next
    case (PropertiesChanged p)
    with g t show ?thesis by (simp add: ce tile_inv_refresh)
  next
    case (AgeDone reply)
    have "tile_inv (t\<lparr>t_reading := n, t_age_ms := a\<rparr>)" "tile_inv (t\<lparr>t_reading := n\<rparr>)" for n a
      using t by (auto intro: tile_inv_same)
    with g AgeDone t show ?thesis by (simp add: ce on_age_def tile_inv_render)
  next
    case StaleFire
    with g t show ?thesis by (simp add: ce tile_inv_refresh)
  next
    case Destroy
    with t show ?thesis by (simp add: ce tile_inv_def tile_destroy_def Let_def)
  qed
qed

interpretation tile_events: event_handler "tile_handle gid hid" "\<lambda>t. glib_ids gid \<and> tile_inv t" for gid hid
  by unfold_locales (simp add: tile_inv_handle)

lemma tile_inv_new: "glib_ids gid \<Longrightarrow> tile_inv (new_tile gid watch)"
proof -
  assume g: "glib_ids gid"
  have "tile_inv \<lparr>t_proxy = None, t_props_id = 0, t_stale_timer = 0, t_cancelled = False, t_age_ms = -1, t_watch_id = watch,
        t_view = no_view, t_face = new_face, t_added = 0, t_live = [], t_proxies = 0, t_connected = [],
        t_making = 0, t_reading = 0\<rparr>" by (simp add: tile_inv_def ageing_def no_view_def)
  with g show "tile_inv (new_tile gid watch)" unfolding new_tile_def by (intro tile_inv_render) simp_all
qed

lemma tile_inv_run: "glib_ids gid \<Longrightarrow> tile_inv (fold (tile_handle gid hid) es (new_tile gid watch))"
  using tile_events.fold_inv [of gid "new_tile gid watch" hid es] tile_inv_new by blast

section \<open>After the daemon has gone, and after the end\<close>

text \<open>Hidden, with nothing that could show it again but the daemon.\<close>

definition tile_absent :: "tile \<Rightarrow> bool" where
  "tile_absent t \<longleftrightarrow> \<not> f_visible (t_face t) \<and> t_proxy t = None \<and> t_making t = 0 \<and> t_reading t = 0"

lemma hidden_render [simp]: "\<not> f_visible (toggle_render (tile_view_of cache False t))"
  by (simp add: toggle_render_def tile_view_of_def Let_def)

lemma absent_refresh: "tile_absent t \<Longrightarrow> tile_absent (refresh gid cache t)"
  by (simp add: tile_absent_def refresh_def)

lemma absent_handle:
  assumes "snd ce \<noteq> Appeared" "tile_absent t"
  shows "tile_absent (tile_handle gid hid ce t)"
proof -
  obtain cache e where ce: "ce = (cache, e)" by (cases ce)
  show ?thesis
    using assms absent_refresh [of t gid cache]
    by (cases e) (auto simp: ce tile_absent_def on_vanished_def tile_destroy_def Let_def)
qed

interpretation absent: guarded_handler "tile_handle gid hid" tile_absent "\<lambda>ce. snd ce \<noteq> Appeared" for gid hid
  by unfold_locales (rule absent_handle)

text \<open>Disabled: no timer, no watch, no proxy, and only a proxy nobody disconnected could still call.\<close>

definition tile_quiet :: "tile_face \<Rightarrow> tile \<Rightarrow> bool" where
  "tile_quiet face t \<longleftrightarrow> t_cancelled t \<and> t_live t = [] \<and> t_stale_timer t = 0 \<and> t_watch_id t = 0 \<and> t_proxy t = None \<and> t_face t = face"

lemma quiet_handle:
  assumes "\<forall>p. snd ce \<noteq> PropertiesChanged p" "tile_quiet face t"
  shows "tile_quiet face (tile_handle gid hid ce t)"
proof -
  obtain cache e where ce: "ce = (cache, e)" by (cases ce)
  show ?thesis
    using assms by (cases e) (auto simp: ce tile_quiet_def on_proxy_def on_age_def tile_destroy_def Let_def)
qed

interpretation quiet: guarded_handler "tile_handle gid hid" "tile_quiet face" "\<lambda>ce. \<forall>p. snd ce \<noteq> PropertiesChanged p"
  for gid hid face
  by unfold_locales (rule quiet_handle)

lemma destroy_quiet: "tile_inv t \<Longrightarrow> tile_quiet (t_face t) (tile_destroy t)"
  by (cases "t_stale_timer t = 0") (auto simp: tile_quiet_def tile_destroy_def Let_def tile_inv_def)

section \<open>A tile that is up to date\<close>

text \<open>What is drawn when the proxy has cached what the service would answer.\<close>

definition view_of_state :: "bool \<Rightarrow> int \<Rightarrow> state \<Rightarrow> tile_view" where
  "view_of_state present age v =
     \<lparr>w_present = present, w_phase = v_phase v, w_channel_open = v_channel_open v, w_status = v_status v,
      w_have_battery = v_have_battery v, w_parse_refusals = v_parse_refusals v, w_age_ms = Some age,
      w_components = components_from_dbus (Some (unpack (components_variant (v_components v))))\<rparr>"

lemma tile_view_up_to_date:
  assumes "\<forall>k \<in> set signalled. cache k = get_property None v k" "t_proxy t \<noteq> None"
  shows "tile_view_of cache present t = view_of_state present (t_age_ms t) v"
  using assms by (auto simp: tile_view_of_def view_of_state_def cached_def signalled_def get_property_def)

definition pod_text :: "u8 option \<Rightarrow> string" where
  "pod_text l = (case l of None \<Rightarrow> DASH | Some l \<Rightarrow> fmt_u (unat l) @ ''%'')"

lemma tile_pod:
  assumes "smap_ok (v_components v)"
  shows "level_text (map_of (w_components (view_of_state present age v)) k) = pod_text (pod_level v k)"
    and "has_level (map_of (w_components (view_of_state present age v)) k) \<longleftrightarrow> pod_level v k \<noteq> None"
proof -
  have "fmt_d (uint l) = fmt_u (unat l)" for l :: u8 by (simp add: fmt_d_def)
  then show "level_text (map_of (w_components (view_of_state present age v)) k) = pod_text (pod_level v k)"
    "has_level (map_of (w_components (view_of_state present age v)) k) \<longleftrightarrow> pod_level v k \<noteq> None"
    using lookup_unpacked [OF assms(1), of k]
    by (cases "map_of (v_components v) k";
        simp add: view_of_state_def level_text_def has_level_def pod_text_def pod_level_def
          tile_component_of_def split: option.split)+
qed

lemma subtitle_of_state:
  assumes "smap_ok (v_components v)" "v_have_battery v" "pod_levels v \<noteq> {}"
  shows "subtitle (view_of_state True age v) =
    (if v_channel_open v then '''' else format_age (Some age) @ '' '' @ SEP @ '' '')
    @ ''L '' @ pod_text (pod_level v ''left'') @ '' '' @ SEP @ '' R '' @ pod_text (pod_level v ''right'')"
proof -
  have "any_pod_reading (w_components (view_of_state True age v))"
    using assms(3) tile_pod(2) [OF assms(1)] by (auto simp: any_pod_reading_def pod_levels_def)
  then have "subtitle (view_of_state True age v) =
      (if v_channel_open v then '''' else format_age (Some age) @ '' '' @ SEP @ '' '')
      @ ''L '' @ level_text (map_of (w_components (view_of_state True age v)) ''left'') @ '' '' @ SEP @ '' ''
      @ ''R '' @ level_text (map_of (w_components (view_of_state True age v)) ''right'')"
    using assms(2) by (simp add: subtitle_def Let_def view_of_state_def)
  then show ?thesis unfolding tile_pod(1) [OF assms(1)] by simp
qed

lemma warning_of_state:
  assumes "smap_ok (v_components v)" "list_all (\<lambda>(k, c). k \<in> set tile_keys) (v_components v)"
  shows "has_warning (view_of_state True age v) \<longleftrightarrow>
    0 < v_parse_refusals v \<or> list_ex (\<lambda>(k, c). cv_framing_anomaly c) (v_components v)"
proof -
  have odd: "odd_framing (view_of_state True age v) k \<longleftrightarrow>
      (\<exists>c. map_of (v_components v) k = Some c \<and> cv_framing_anomaly c)" for k
    using lookup_unpacked [OF assms(1), of k]
    by (cases "map_of (v_components v) k") (simp_all add: odd_framing_def view_of_state_def tile_component_of_def)
  have "list_ex (odd_framing (view_of_state True age v)) tile_keys \<longleftrightarrow>
      (\<exists>(k, c) \<in> set (v_components v). cv_framing_anomaly c)"
    using assms(2) smap_ok_distinct [OF assms(1)]
    by (fastforce simp: list_ex_iff list_all_iff odd dest: map_of_SomeD intro: map_of_is_SomeI)
  then show ?thesis by (simp add: has_warning_def view_of_state_def list_ex_iff)
qed

section \<open>What two overlapping calls do\<close>

text \<open>
  The daemon vanishes while a read of the age is in flight: the reply, an error, draws the tile
  as if the daemon were there, and it stays until the daemon appears and changes something.
\<close>

definition nothing_cached :: bus_cache where
  "nothing_cached = (\<lambda>_. None)"

lemma vanish_during_read:
  "let t = fold (tile_handle Suc Suc) (map (Pair nothing_cached) [Appeared, ProxyDone True, Vanished, AgeDone None])
             (new_tile Suc 1)
   in f_visible (t_face t) \<and> t_proxy t = None \<and> f_subtitle (t_face t) = ''Not connected''"
  by code_simp

text \<open>
  The daemon goes and comes back while a proxy is being made: two proxies are made, the first
  is never disconnected, and its signals still draw the tile after the end.
\<close>

lemma overlapping_proxies:
  "let t = fold (tile_handle Suc Suc) (map (Pair nothing_cached)
             [Appeared, Vanished, Appeared, ProxyDone True, ProxyDone True, Destroy]) (new_tile Suc 1)
   in t_cancelled t \<and> t_connected t = [(0, 1)]"
  by code_simp

section \<open>Properties\<close>

text \<open>
  The refresh timer of one indicator runs exactly while it is needed: in every run of the extension there is
  never more than one timeout source, and there is one exactly while the extension is enabled
  and the tile shows a reading of a daemon that is present with its channel closed, the one kind
  of text that changes by itself.
\<close>

theorem stale_timer_iff:
  assumes "glib_ids gid" and "t = fold (tile_handle gid hid) es (new_tile gid watch)"
  shows "length (t_live t) \<le> 1 \<and> (t_live t \<noteq> [] \<longleftrightarrow> \<not> t_cancelled t \<and> ageing (t_view t))"
  using tile_inv_run [OF assms(1), of hid es watch] unfolding assms(2) [symmetric] by (auto simp: tile_inv_def)

theorem stale_timer_iff_witness:
  "let c = (\<lambda>k. if k = ''HaveBattery'' then Some (VBoolean True) else None);
       t = fold (tile_handle Suc Suc) (map (Pair c) [Appeared, ProxyDone True, AgeDone (Some 252000)]) (new_tile Suc 1)
   in ageing (t_view t) \<and> t_live t \<noteq> [] \<and> length (t_live t) \<le> 1"
proof -
  let ?c = "\<lambda>k. if k = ''HaveBattery'' then Some (VBoolean True) else None"
  let ?es = "map (Pair ?c) [Appeared, ProxyDone True, AgeDone (Some 252000)]"
  have "ageing (t_view (fold (tile_handle Suc Suc) ?es (new_tile Suc 1)))"
    "\<not> t_cancelled (fold (tile_handle Suc Suc) ?es (new_tile Suc 1))" by code_simp+
  with stale_timer_iff [OF glib_ids_Suc refl, of Suc ?es 1] show ?thesis unfolding Let_def by blast
qed

text \<open>
  C27: An age is never shown that was not just read: whenever an event changes what the tile shows
  of a daemon that is present, the event is the completion of a read of \<open>BatteryAgeMs\<close>, the age
  is its reply, or unknown if it failed, and everything else is what the proxy has cached then.
\<close>

theorem age_just_read:
  assumes "w_present (t_view (tile_handle gid hid (cache, e) t))"
    and "t_view (tile_handle gid hid (cache, e) t) \<noteq> t_view t"
  shows "\<exists>reply. e = AgeDone reply \<and> 0 < t_reading t
    \<and> w_age_ms (t_view (tile_handle gid hid (cache, e) t)) = Some (case reply of Some ms \<Rightarrow> ms | None \<Rightarrow> -1)
    \<and> t_view (tile_handle gid hid (cache, e) t) =
        tile_view_of cache True (t\<lparr>t_age_ms := (case reply of Some ms \<Rightarrow> ms | None \<Rightarrow> -1)\<rparr>)"
proof (cases e)
  case (AgeDone reply)
  with assms show ?thesis
    by (auto simp: on_age_def tile_view_of_def cached_def split: if_splits)
next
  case (ProxyDone made)
  with assms show ?thesis
    by (auto simp: on_proxy_def refresh_def tile_view_of_def Let_def split: if_splits)
qed (use assms in \<open>auto simp: on_appeared_def on_vanished_def refresh_def tile_destroy_def tile_view_of_def Let_def
      split: if_splits\<close>)

theorem age_just_read_witness:
  "let t = fold (tile_handle Suc Suc) (map (Pair nothing_cached) [Appeared, ProxyDone True]) (new_tile Suc 1);
       u = tile_handle Suc Suc (nothing_cached, AgeDone (Some 1200)) t
   in 0 < t_reading t \<and> w_age_ms (t_view u) = Some 1200"
proof -
  let ?t = "fold (tile_handle Suc Suc) (map (Pair nothing_cached) [Appeared, ProxyDone True]) (new_tile Suc 1)"
  let ?u = "tile_handle Suc Suc (nothing_cached, AgeDone (Some 1200)) ?t"
  have "w_present (t_view ?u)" "\<not> w_present (t_view ?t)" by code_simp+
  then have "w_present (t_view ?u)" "t_view ?u \<noteq> t_view ?t" by fastforce+
  from age_just_read [OF this] obtain reply where r: "AgeDone (Some 1200) = AgeDone reply" "0 < t_reading ?t"
    "w_age_ms (t_view ?u) = Some (case reply of Some ms \<Rightarrow> ms | None \<Rightarrow> -1)" by blast
  from r(1) have "reply = Some 1200" by simp
  with r(2,3) show ?thesis unfolding Let_def by (simp only: option.case simp_thms)
qed



end
