(* ===== verification/Bus_Chain.thy ===== *)
theory Bus_Chain
  imports Airprobed Tile
begin

text \<open>
  The daemon and the tile of the Shell extension joined by the session bus. What each of them
  does on an event is in \<open>Airprobed\<close> and \<open>Tile\<close>; here a message takes time. Of the bus and of
  GIO the model uses what their documentation promises: messages from one sender arrive in
  order, an object is exported before the name is acquired, a proxy holds the reply to the
  \<open>GetAll\<close> it is made with and follows \<open>PropertiesChanged\<close> from then on, and calls are answered.
  One life of the daemon is followed. The lemmas say that the tile's calls are the requests and
  replies under way, that the cache of every proxy passes through what the daemon held when it
  sent each reply, and that what is on the screen is a picture of the daemon at one moment.
\<close>

section \<open>The bus between the two programs\<close>

datatype bus_request = GetAll | GetAge

datatype bus_message =
    Signal "(string \<times> gvariant) list"
  | AllReply "bus_cache option"
  | AgeReply "int option"

text \<open>
  The requests under way to the daemon and the messages under way to the Shell, the oldest first,
  each message with the daemon as it was when it was sent, which only the statements look at;
  and what every proxy has cached.
\<close>

record chain =
  ch_daemon :: daemon
  ch_requests :: "bus_request list"
  ch_wire :: "(daemon \<times> bus_message) list"
  ch_caches :: "nat \<Rightarrow> bus_cache"
  ch_tile :: tile

text \<open>The daemon's replies: an error while the object is not exported.\<close>

definition get_all :: "os \<Rightarrow> daemon \<Rightarrow> bus_cache option" where
  "get_all os d =
    (if exported (d_service d)
     then Some (get_property (Some (pump_battery_age_ms os (d_pump d))) (ds_state (d_service d))) else None)"

definition get_age :: "os \<Rightarrow> daemon \<Rightarrow> int option" where
  "get_age os d =
    (if exported (d_service d)
     then (case daemon_get_property os ''BatteryAgeMs'' d of Inr (VInt64 ms) \<Rightarrow> Some ms | _ \<Rightarrow> None) else None)"

fun reply_to :: "os \<Rightarrow> daemon \<Rightarrow> bus_request \<Rightarrow> bus_message" where
  "reply_to os d GetAll = AllReply (get_all os d)"
| "reply_to os d GetAge = AgeReply (get_age os d)"

text \<open>The calls an event of the tile has made.\<close>

definition asked :: "tile \<Rightarrow> tile \<Rightarrow> bus_request list" where
  "asked t t' = replicate (t_making t' - t_making t) GetAll @ replicate (t_reading t' - t_reading t) GetAge"

definition proxy_cache :: "chain \<Rightarrow> bus_cache" where
  "proxy_cache c = (case t_proxy (ch_tile c) of None \<Rightarrow> (\<lambda>_. None) | Some p \<Rightarrow> ch_caches c p)"

definition at_tile :: "(nat \<Rightarrow> nat) \<Rightarrow> (nat \<Rightarrow> nat) \<Rightarrow> tile_event \<Rightarrow> chain \<Rightarrow> chain" where
  "at_tile tgid hid e c =
    (let t = tile_handle tgid hid (proxy_cache c, e) (ch_tile c) in
     c\<lparr>ch_tile := t, ch_requests := ch_requests c @ asked (ch_tile c) t\<rparr>)"

text \<open>
  A signal reaches every proxy, and each that is connected calls its handler; the reply to
  \<open>GetAll\<close> completes the making of a proxy, the next one in number.
\<close>

fun receive :: "(nat \<Rightarrow> nat) \<Rightarrow> (nat \<Rightarrow> nat) \<Rightarrow> bus_message \<Rightarrow> chain \<Rightarrow> chain" where
  "receive tgid hid (Signal sig) c =
     fold (\<lambda>p. at_tile tgid hid (PropertiesChanged p)) (map fst (t_connected (ch_tile c)))
       (c\<lparr>ch_caches := (\<lambda>p. apply_signal sig (ch_caches c p))\<rparr>)"
| "receive tgid hid (AllReply r) c =
     at_tile tgid hid (ProxyDone True)
       (c\<lparr>ch_caches := (ch_caches c)(t_proxies (ch_tile c) := (case r of None \<Rightarrow> (\<lambda>_. None) | Some m \<Rightarrow> m))\<rparr>)"
| "receive tgid hid (AgeReply r) c = at_tile tgid hid (AgeDone r) c"

datatype chain_event = AtDaemon daemon_event | Answer | Deliver | NameUp | Redraw | Disable

fun is_acquired :: "daemon_event \<Rightarrow> bool" where
  "is_acquired (BusAcquired _) = True"
| "is_acquired _ = False"

text \<open>The bus is acquired once, and only then can the name be seen.\<close>

fun chain_handle ::
    "os \<Rightarrow> (nat \<Rightarrow> nat) \<Rightarrow> bus_answers \<Rightarrow> (nat \<Rightarrow> nat) \<Rightarrow> (nat \<Rightarrow> nat) \<Rightarrow> chain_event \<Rightarrow> chain \<Rightarrow> chain" where
  "chain_handle os gid ba tgid hid (AtDaemon e) c =
    (if is_acquired e \<and> ds_conn (d_service (ch_daemon c)) then c
     else let d = ch_daemon c; d' = daemon_handle os gid ba e d in
       c\<lparr>ch_daemon := d',
         ch_wire := ch_wire c @ map (\<lambda>sig. (d', Signal sig)) (drop (length (ds_out (d_service d))) (ds_out (d_service d')))\<rparr>)"
| "chain_handle os gid ba tgid hid Answer c =
    (case ch_requests c of
       [] \<Rightarrow> c
     | r # rs \<Rightarrow> c\<lparr>ch_requests := rs, ch_wire := ch_wire c @ [(ch_daemon c, reply_to os (ch_daemon c) r)]\<rparr>)"
| "chain_handle os gid ba tgid hid Deliver c =
    (case ch_wire c of [] \<Rightarrow> c | (d, m) # w \<Rightarrow> receive tgid hid m (c\<lparr>ch_wire := w\<rparr>))"
| "chain_handle os gid ba tgid hid NameUp c =
    (if ds_conn (d_service (ch_daemon c)) then at_tile tgid hid Appeared c else c)"
| "chain_handle os gid ba tgid hid Redraw c = at_tile tgid hid StaleFire c"
| "chain_handle os gid ba tgid hid Disable c = at_tile tgid hid Destroy c"

definition chain_start :: "daemon \<Rightarrow> (nat \<Rightarrow> nat) \<Rightarrow> nat \<Rightarrow> chain" where
  "chain_start d tgid watch = \<lparr>ch_daemon = d, ch_requests = [], ch_wire = [], ch_caches = (\<lambda>_ _. None),
     ch_tile = new_tile tgid watch\<rparr>"

inductive chain_reachable ::
    "os \<Rightarrow> (nat \<Rightarrow> nat) \<Rightarrow> bus_answers \<Rightarrow> options \<Rightarrow> (nat \<Rightarrow> nat) \<Rightarrow> (nat \<Rightarrow> nat) \<Rightarrow> chain \<Rightarrow> bool"
  for os gid ba opts tgid hid where
  chain_started: "chain_reachable os gid ba opts tgid hid
    (chain_start (daemon_start os gid ba bus reg reply opts bluez_battery) tgid watch)"
| chain_handled: "chain_reachable os gid ba opts tgid hid c \<Longrightarrow>
    chain_reachable os gid ba opts tgid hid (chain_handle os gid ba tgid hid e c)"

section \<open>What is under way\<close>

definition count_of :: "('a \<Rightarrow> bool) \<Rightarrow> 'a list \<Rightarrow> nat" where
  "count_of P xs = length (filter P xs)"

lemma count_of_simps [simp]:
  "count_of P [] = 0" "count_of P (x # xs) = (if P x then Suc (count_of P xs) else count_of P xs)"
  "count_of P (xs @ ys) = count_of P xs + count_of P ys"
  "count_of P (replicate n x) = (if P x then n else 0)"
  by (simp_all add: count_of_def)

definition is_all_reply :: "daemon \<times> bus_message \<Rightarrow> bool" where
  "is_all_reply dm \<longleftrightarrow> (\<exists>r. snd dm = AllReply r)"

definition is_age_reply :: "daemon \<times> bus_message \<Rightarrow> bool" where
  "is_age_reply dm \<longleftrightarrow> (\<exists>r. snd dm = AgeReply r)"

lemma is_reply_simps [simp]:
  "\<not> is_all_reply (d, Signal sig)" "is_all_reply (d, AllReply a)" "\<not> is_all_reply (d, AgeReply r)"
  "\<not> is_age_reply (d, Signal sig)" "\<not> is_age_reply (d, AllReply a)" "is_age_reply (d, AgeReply r)"
  by (simp_all add: is_all_reply_def is_age_reply_def)

text \<open>
  The tile's calls in flight are the requests and replies under way; its proxy is one that was
  made and is connected, and before the bus is acquired it has none.
\<close>

definition calls_counted :: "tile \<Rightarrow> bus_request list \<Rightarrow> (daemon \<times> bus_message) list \<Rightarrow> bool" where
  "calls_counted t rs w \<longleftrightarrow>
     t_making t = count_of (\<lambda>r. r = GetAll) rs + count_of is_all_reply w \<and>
     t_reading t = count_of (\<lambda>r. r = GetAge) rs + count_of is_age_reply w"

definition proxy_kept :: "tile \<Rightarrow> bool" where
  "proxy_kept t \<longleftrightarrow> (\<forall>p. t_proxy t = Some p \<longrightarrow>
     p < t_proxies t \<and> p \<in> fst ` set (t_connected t) \<and> \<not> t_cancelled t) \<and>
     (t_proxy t = None \<and> \<not> t_cancelled t \<longrightarrow> t_reading t = 0)"

text \<open>Without a call in flight, the tile shows what its proxy has cached.\<close>

definition drawn :: "bus_cache \<Rightarrow> tile \<Rightarrow> bool" where
  "drawn cache t \<longleftrightarrow> (t_proxy t \<noteq> None \<and> t_reading t = 0 \<longrightarrow> t_face t = toggle_render (tile_view_of cache True t))"

definition untouched :: "tile \<Rightarrow> bool" where
  "untouched t \<longleftrightarrow> t_proxy t = None \<and> t_proxies t = 0 \<and> t_connected t = [] \<and> \<not> f_visible (t_face t)"

definition chain_calls :: "chain \<Rightarrow> bool" where
  "chain_calls c \<longleftrightarrow> calls_counted (ch_tile c) (ch_requests c) (ch_wire c) \<and> proxy_kept (ch_tile c) \<and>
     drawn (proxy_cache c) (ch_tile c) \<and>
     (\<not> ds_conn (d_service (ch_daemon c)) \<longrightarrow> untouched (ch_tile c) \<and> ch_requests c = [] \<and> ch_wire c = [])"

subsection \<open>What the tile's handlers do to its calls\<close>

lemma tile_render_proxies [simp]: "t_proxies (tile_render gid cache present t) = t_proxies t"
  "t_age_ms (tile_render gid cache present t) = t_age_ms t"
  by (simp_all add: tile_render_def Let_def)

lemma refresh_calls:
  "t_making (refresh gid cache t) = t_making t" "t_proxy (refresh gid cache t) = t_proxy t"
  "t_proxies (refresh gid cache t) = t_proxies t" "t_connected (refresh gid cache t) = t_connected t"
  "t_cancelled (refresh gid cache t) = t_cancelled t"
  "t_reading (refresh gid cache t) = (if t_proxy t = None then t_reading t else Suc (t_reading t))"
  by (simp_all add: refresh_def)

lemma asked_simps [simp]:
  "count_of (\<lambda>r. r = GetAll) (asked t t') = t_making t' - t_making t"
  "count_of (\<lambda>r. r = GetAge) (asked t t') = t_reading t' - t_reading t"
  by (simp_all add: asked_def)

lemma tile_view_calls:
  "tile_view_of cache present (t\<lparr>t_reading := n\<rparr>) = tile_view_of cache present t"
  "tile_view_of cache present (t\<lparr>t_making := n\<rparr>) = tile_view_of cache present t"
  "tile_view_of cache present (tile_render gid cache' present' t) = tile_view_of cache present t"
  by (simp_all add: tile_view_of_def cached_def)

text \<open>An event that completes no call: what it asks for is what it has more in flight.\<close>

definition keeps_calls :: "bus_cache \<Rightarrow> tile \<Rightarrow> tile \<Rightarrow> bool" where
  "keeps_calls cache t t' \<longleftrightarrow> t_making t \<le> t_making t' \<and> t_reading t \<le> t_reading t' \<and>
     (proxy_kept t \<longrightarrow> proxy_kept t') \<and> (drawn cache t \<longrightarrow> drawn cache t')"

lemma keeps_calls_refresh: "keeps_calls cache t (refresh gid cache t)"
  by (simp add: keeps_calls_def proxy_kept_def drawn_def refresh_def)

lemma keeps_calls_event:
  assumes "e = Appeared \<or> (\<exists>p. e = PropertiesChanged p) \<or> e = StaleFire \<or> e = Destroy"
  shows "keeps_calls cache t (tile_handle tgid hid (cache, e) t)"
proof -
  have id: "keeps_calls cache t t" by (simp add: keeps_calls_def)
  have d: "keeps_calls cache t (tile_destroy t)"
    by (simp add: keeps_calls_def proxy_kept_def drawn_def tile_destroy_def Let_def)
  from assms show ?thesis
  proof (elim disjE exE)
    assume "e = Appeared"
    then show ?thesis by (simp add: id on_appeared_def)
      (auto simp: keeps_calls_def proxy_kept_def drawn_def tile_view_calls)
  qed (simp_all add: id d keeps_calls_refresh)
qed

lemma at_tile_sels [simp]:
  "ch_daemon (at_tile tgid hid e c) = ch_daemon c" "ch_wire (at_tile tgid hid e c) = ch_wire c"
  "ch_caches (at_tile tgid hid e c) = ch_caches c"
  "ch_tile (at_tile tgid hid e c) = tile_handle tgid hid (proxy_cache c, e) (ch_tile c)"
  "ch_requests (at_tile tgid hid e c) =
     ch_requests c @ asked (ch_tile c) (tile_handle tgid hid (proxy_cache c, e) (ch_tile c))"
  by (simp_all add: at_tile_def Let_def)

lemma counted_keeps:
  assumes "keeps_calls cache t t'" "calls_counted t rs w"
  shows "calls_counted t' (rs @ asked t t') w"
  using assms by (auto simp: keeps_calls_def calls_counted_def)

subsection \<open>A signal\<close>

definition signal_calls :: "tile \<Rightarrow> nat" where
  "signal_calls t = (if t_proxy t = None then 0 else length (t_connected t))"

text \<open>
  Every connected proxy makes the tile read the age, if it has a proxy; nothing is drawn yet.
\<close>

definition refreshed :: "nat \<Rightarrow> chain \<Rightarrow> chain \<Rightarrow> bool" where
  "refreshed n c c' \<longleftrightarrow> ch_daemon c' = ch_daemon c \<and> ch_wire c' = ch_wire c \<and> ch_caches c' = ch_caches c \<and>
     ch_requests c' = ch_requests c @ replicate n GetAge \<and>
     t_making (ch_tile c') = t_making (ch_tile c) \<and> t_reading (ch_tile c') = t_reading (ch_tile c) + n \<and>
     t_proxy (ch_tile c') = t_proxy (ch_tile c) \<and> t_proxies (ch_tile c') = t_proxies (ch_tile c) \<and>
     t_connected (ch_tile c') = t_connected (ch_tile c) \<and> t_cancelled (ch_tile c') = t_cancelled (ch_tile c) \<and>
     t_watch_id (ch_tile c') = t_watch_id (ch_tile c) \<and>
     (t_face (ch_tile c') = t_face (ch_tile c) \<or> \<not> f_visible (t_face (ch_tile c')))"

lemma refreshed_trans: "refreshed m c c' \<Longrightarrow> refreshed n c' c'' \<Longrightarrow> refreshed (m + n) c c''"
  by (auto simp: refreshed_def replicate_add)

lemma refreshed_once:
  assumes "p \<in> fst ` set (t_connected (ch_tile c))"
  shows "refreshed (if t_proxy (ch_tile c) = None then 0 else 1) c (at_tile tgid hid (PropertiesChanged p) c)"
  using assms by (auto simp: refreshed_def refresh_def asked_def)

lemma refreshed_fold:
  "set ps \<subseteq> fst ` set (t_connected (ch_tile c)) \<Longrightarrow>
   refreshed (if t_proxy (ch_tile c) = None then 0 else length ps) c
     (fold (\<lambda>p. at_tile tgid hid (PropertiesChanged p)) ps c)"
proof (induction ps arbitrary: c)
  case Nil
  then show ?case by (simp add: refreshed_def)
next
  case (Cons p ps)
  have one: "refreshed (if t_proxy (ch_tile c) = None then 0 else 1) c (at_tile tgid hid (PropertiesChanged p) c)"
    using Cons.prems by (intro refreshed_once) simp
  then have "set ps \<subseteq> fst ` set (t_connected (ch_tile (at_tile tgid hid (PropertiesChanged p) c)))"
    using Cons.prems unfolding refreshed_def by simp
  from refreshed_trans [OF one Cons.IH [OF this]] one show ?case
    by (cases "t_proxy (ch_tile c)") (auto simp: refreshed_def)
qed

lemma receive_signal:
  "refreshed (signal_calls (ch_tile c)) (c\<lparr>ch_caches := (\<lambda>p. apply_signal sig (ch_caches c p))\<rparr>)
     (receive tgid hid (Signal sig) c)"
  using refreshed_fold [of "map fst (t_connected (ch_tile c))" "c\<lparr>ch_caches := (\<lambda>p. apply_signal sig (ch_caches c p))\<rparr>" tgid hid]
  by (cases "t_proxy (ch_tile c)") (simp_all add: signal_calls_def)

subsection \<open>The invariant of the calls\<close>

lemma daemon_handle_conn:
  "\<not> is_acquired e \<Longrightarrow> ds_conn (d_service (daemon_handle os gid ba e d)) = ds_conn (d_service d)"
proof -
  have "ds_conn (fold ds_publish vs ds) = ds_conn ds" for vs ds by (induction vs arbitrary: ds) simp_all
  then show "\<not> is_acquired e \<Longrightarrow> ?thesis" by (cases e) (simp_all add: with_pump_def)
qed

lemma unconnected_silent:
  assumes "\<not> ds_conn (d_service d)"
  shows "ds_out (d_service (daemon_handle os gid ba e d)) = ds_out (d_service d)"
proof -
  have "\<not> ds_conn ds \<Longrightarrow> ds_out (fold ds_publish vs ds) = ds_out ds" for vs ds
    by (induction vs arbitrary: ds) (simp_all add: ds_publish_out exported_def)
  then show ?thesis using assms by (cases e) (simp_all add: with_pump_def on_bus_acquired_def)
qed

lemma proxy_cache_upd [simp]:
  "proxy_cache (c\<lparr>ch_wire := w\<rparr>) = proxy_cache c" "proxy_cache (c\<lparr>ch_requests := rs\<rparr>) = proxy_cache c"
  "proxy_cache (c\<lparr>ch_daemon := d\<rparr>) = proxy_cache c"
  by (simp_all add: proxy_cache_def split: option.split)

lemma calls_at_daemon:
  assumes "chain_calls c" "\<not> (is_acquired e \<and> ds_conn (d_service (ch_daemon c)))"
  shows "chain_calls (chain_handle os gid ba tgid hid (AtDaemon e) c)"
proof -
  have s: "count_of is_all_reply (map (\<lambda>sig. (d, Signal sig)) sigs) = 0"
    "count_of is_age_reply (map (\<lambda>sig. (d, Signal sig)) sigs) = 0" for d sigs
    by (induction sigs) simp_all
  have "ds_conn (d_service (ch_daemon c)) \<longrightarrow> ds_conn (d_service (daemon_handle os gid ba e (ch_daemon c)))"
    using assms(2) daemon_handle_conn by blast
  then show ?thesis
    using assms unconnected_silent [of "ch_daemon c" os gid ba e]
    by (auto simp: chain_calls_def calls_counted_def s Let_def)
qed

lemma calls_answer: "chain_calls c \<Longrightarrow> chain_calls (chain_handle os gid ba tgid hid Answer c)"
proof (cases "ch_requests c")
  case (Cons r rs)
  then show "chain_calls c \<Longrightarrow> ?thesis"
    by (cases r) (auto simp: chain_calls_def calls_counted_def)
qed simp

lemma tile_destroy_calls [simp]:
  "t_making (tile_destroy t) = t_making t" "t_reading (tile_destroy t) = t_reading t"
  "t_proxy (tile_destroy t) = None" "t_proxies (tile_destroy t) = t_proxies t" "t_face (tile_destroy t) = t_face t"
  "t_proxy t = None \<Longrightarrow> t_connected (tile_destroy t) = t_connected t"
  "t_cancelled (tile_destroy t)"
proof -
  have d: "t_proxies (drop_proxy u) = t_proxies u" "t_proxy u = None \<Longrightarrow> t_connected (drop_proxy u) = t_connected u" for u
    by (simp_all add: drop_proxy_def split: option.split)
  show "t_making (tile_destroy t) = t_making t" "t_reading (tile_destroy t) = t_reading t"
    "t_proxy (tile_destroy t) = None" "t_proxies (tile_destroy t) = t_proxies t" "t_face (tile_destroy t) = t_face t"
    "t_proxy t = None \<Longrightarrow> t_connected (tile_destroy t) = t_connected t" "t_cancelled (tile_destroy t)"
    by (simp_all add: tile_destroy_def d Let_def)
qed

lemma untouched_event:
  "untouched t \<Longrightarrow> e = StaleFire \<or> e = Destroy \<Longrightarrow>
   untouched (tile_handle tgid hid (cache, e) t) \<and> asked t (tile_handle tgid hid (cache, e) t) = []"
  by (auto simp: untouched_def refresh_def asked_def split: if_splits)

lemma calls_tile:
  assumes "chain_calls c" "e = StaleFire \<or> e = Destroy \<or> e = Appeared \<and> ds_conn (d_service (ch_daemon c))"
  shows "chain_calls (at_tile tgid hid e c)"
proof -
  let ?t = "tile_handle tgid hid (proxy_cache c, e) (ch_tile c)"
  have k: "keeps_calls (proxy_cache c) (ch_tile c) ?t" using assms(2) by (intro keeps_calls_event) auto
  have p: "t_proxy ?t = t_proxy (ch_tile c) \<or> t_proxy ?t = None"
    using assms(2) by (auto simp: on_appeared_def refresh_calls tile_destroy_def Let_def split: if_splits)
  have "drawn (proxy_cache (at_tile tgid hid e c)) ?t"
  proof (cases "t_proxy ?t")
    case None
    then show ?thesis by (simp add: drawn_def)
  next
    case (Some q)
    then have "proxy_cache (at_tile tgid hid e c) = proxy_cache c" using p by (simp add: proxy_cache_def split: option.split)
    then show ?thesis using k assms(1) by (simp add: keeps_calls_def chain_calls_def)
  qed
  moreover have "untouched ?t \<and> asked (ch_tile c) ?t = []" if "\<not> ds_conn (d_service (ch_daemon c))" "untouched (ch_tile c)"
    using that assms(2) untouched_event [of "ch_tile c" e] by blast
  ultimately show ?thesis
    using assms(1) k counted_keeps [OF k] by (auto simp: chain_calls_def keeps_calls_def)
qed

text \<open>The completion of a call: a proxy is made, connected and asks for the age; an age is drawn.\<close>

lemma calls_all_reply:
  assumes "calls_counted t rs ((d, AllReply a) # w)" "proxy_kept t"
  shows "let t' = tile_handle tgid hid (cache, ProxyDone True) t in
    calls_counted t' (rs @ asked t t') w \<and> proxy_kept t' \<and> (t_proxy t' = None \<or> 0 < t_reading t')"
  using assms by (auto simp: calls_counted_def proxy_kept_def on_proxy_def refresh_def asked_def Let_def)

lemma calls_age_reply:
  assumes "calls_counted t rs ((d, AgeReply a) # w)" "proxy_kept t"
  shows "let t' = tile_handle tgid hid (cache, AgeDone a) t in
    calls_counted t' (rs @ asked t t') w \<and> proxy_kept t' \<and> drawn cache t' \<and> t_proxy t' = t_proxy t"
  using assms
  by (auto simp: calls_counted_def proxy_kept_def on_age_def asked_def drawn_def tile_view_of_def cached_def)

lemma calls_signal:
  assumes "calls_counted t rs ((d, Signal sig) # w)" "proxy_kept t" "refreshed (signal_calls t) c c'"
    and "ch_tile c = t" "ch_requests c = rs"
  shows "calls_counted (ch_tile c') (ch_requests c') w \<and> proxy_kept (ch_tile c') \<and>
    (t_proxy (ch_tile c') = None \<or> 0 < t_reading (ch_tile c'))"
  using assms by (auto simp: calls_counted_def proxy_kept_def refreshed_def signal_calls_def)

lemma calls_deliver:
  assumes c: "chain_calls c"
  shows "chain_calls (chain_handle os gid ba tgid hid Deliver c)"
proof (cases "ch_wire c")
  case Nil
  with c show ?thesis by simp
next
  case (Cons dm w)
  obtain d m where dm: "dm = (d, m)" by (cases dm)
  have counted: "calls_counted (ch_tile c) (ch_requests c) ((d, m) # w)" and kept: "proxy_kept (ch_tile c)"
    and conn: "ds_conn (d_service (ch_daemon c))"
    using c Cons dm by (auto simp: chain_calls_def)
  show ?thesis
  proof (cases m)
    case (Signal sig)
    define c' where "c' = receive tgid hid (Signal sig) (c\<lparr>ch_wire := w\<rparr>)"
    have r: "refreshed (signal_calls (ch_tile c)) (c\<lparr>ch_wire := w, ch_caches := (\<lambda>p. apply_signal sig (ch_caches c p))\<rparr>) c'"
      using receive_signal [of "c\<lparr>ch_wire := w\<rparr>" sig tgid hid] by (simp add: c'_def)
    have "chain_calls c'"
      using calls_signal [OF counted [unfolded Signal] kept r] conn r
      by (auto simp: chain_calls_def refreshed_def drawn_def)
    then show ?thesis using Cons dm Signal by (simp add: c'_def del: receive.simps)
  next
    case (AllReply a)
    have n: "t_proxy t' = None \<or> 0 < t_reading t' \<Longrightarrow> drawn cache t'" for t' cache by (auto simp: drawn_def)
    show ?thesis
      using calls_all_reply [OF counted [unfolded AllReply] kept, of tgid hid] n conn Cons dm AllReply
      unfolding Let_def by (simp add: chain_calls_def del: tile_handle.simps)
  next
    case (AgeReply a)
    let ?c = "c\<lparr>ch_wire := w\<rparr>"
    have "proxy_cache (at_tile tgid hid (AgeDone a) ?c) = proxy_cache c"
      using calls_age_reply [OF counted [unfolded AgeReply] kept, of tgid hid "proxy_cache c"]
      unfolding Let_def by (simp add: proxy_cache_def [of "at_tile tgid hid (AgeDone a) ?c"] proxy_cache_def [of c] del: tile_handle.simps split: option.split)
    then show ?thesis
      using calls_age_reply [OF counted [unfolded AgeReply] kept, of tgid hid "proxy_cache c"] conn Cons dm AgeReply
      unfolding Let_def by (simp add: chain_calls_def del: tile_handle.simps)
  qed
qed

lemma chain_calls_handle: "chain_calls c \<Longrightarrow> chain_calls (chain_handle os gid ba tgid hid e c)"
proof (cases e)
  case (AtDaemon ev)
  then show "chain_calls c \<Longrightarrow> ?thesis"
    using calls_at_daemon [of c ev os gid ba tgid hid] by (cases "is_acquired ev \<and> ds_conn (d_service (ch_daemon c))") simp_all
qed (simp_all add: calls_answer calls_deliver calls_tile del: chain_handle.simps(2,3))

section \<open>What the proxies hold\<close>

text \<open>The cache holds what the daemon would answer.\<close>

definition holds :: "bus_cache \<Rightarrow> daemon \<Rightarrow> bool" where
  "holds m d \<longleftrightarrow> (\<forall>k \<in> set signalled. m k = bus_view (ds_state (d_service d)) k)"

text \<open>
  With the messages under way, a cache passes through what the daemon held when it sent each of
  its replies, and arrives at what it holds now.
\<close>

fun catches_up :: "bus_cache \<Rightarrow> (daemon \<times> bus_message) list \<Rightarrow> daemon \<Rightarrow> bool" where
  "catches_up m [] d = holds m d"
| "catches_up m ((d0, Signal sig) # w) d = catches_up (apply_signal sig m) w d"
| "catches_up m ((d0, AllReply r) # w) d = (holds m d0 \<and> catches_up m w d)"
| "catches_up m ((d0, AgeReply r) # w) d = (holds m d0 \<and> catches_up m w d)"

text \<open>So does the cache of a proxy that is still to be made.\<close>

fun replies_catch_up :: "(daemon \<times> bus_message) list \<Rightarrow> daemon \<Rightarrow> bool" where
  "replies_catch_up [] d = True"
| "replies_catch_up ((d0, AllReply r) # w) d = ((\<exists>m. r = Some m \<and> catches_up m w d) \<and> replies_catch_up w d)"
| "replies_catch_up ((d0, m) # w) d = replies_catch_up w d"

lemma apply_signal_agree:
  "(\<forall>k \<in> K. m k = m' k) \<Longrightarrow> \<forall>k \<in> K. apply_signal sig m k = apply_signal sig m' k"
  by (simp add: apply_signal_def map_add_def split: option.split)

lemma apply_signals_agree:
  "\<forall>k \<in> K. m k = m' k \<Longrightarrow> \<forall>k \<in> K. fold apply_signal sigs m k = fold apply_signal sigs m' k"
  by (induction sigs arbitrary: m m') (simp_all add: apply_signal_agree)

lemma catches_up_signals:
  "catches_up m (map (\<lambda>sig. (x, Signal sig)) sigs) d \<longleftrightarrow> holds (fold apply_signal sigs m) d"
  by (induction sigs arbitrary: m) simp_all

text \<open>Signals that lead from one state of the daemon to the next keep every cache on the way.\<close>

lemma catches_up_step:
  assumes "fold apply_signal sigs (bus_view (ds_state (d_service d))) = bus_view (ds_state (d_service d'))"
  shows "catches_up m w d \<Longrightarrow> catches_up m (w @ map (\<lambda>sig. (x, Signal sig)) sigs) d'"
proof (induction w arbitrary: m)
  case Nil
  then have "\<forall>k \<in> set signalled. m k = bus_view (ds_state (d_service d)) k" by (simp add: holds_def)
  from apply_signals_agree [OF this, of sigs] show ?case
    by (simp add: catches_up_signals holds_def assms)
next
  case (Cons dm w)
  then show ?case by (cases dm, cases "snd dm") auto
qed

lemma catches_up_reply:
  "catches_up m w d \<Longrightarrow> \<forall>sig. r \<noteq> Signal sig \<Longrightarrow> catches_up m (w @ [(d, r)]) d"
proof (induction w arbitrary: m)
  case Nil
  then show ?case by (cases r) simp_all
next
  case (Cons dm w)
  then show ?case by (cases dm, cases "snd dm") auto
qed

lemma replies_catch_up_step:
  assumes "fold apply_signal sigs (bus_view (ds_state (d_service d))) = bus_view (ds_state (d_service d'))"
  shows "replies_catch_up w d \<Longrightarrow> replies_catch_up (w @ map (\<lambda>sig. (x, Signal sig)) sigs) d'"
proof (induction w)
  case Nil
  show ?case by (induction sigs) simp_all
next
  case (Cons dm w)
  then show ?case using catches_up_step [OF assms] by (cases dm, cases "snd dm") auto
qed

lemma replies_catch_up_reply:
  assumes "\<forall>sig. r \<noteq> Signal sig" "\<forall>a. r = AllReply a \<longrightarrow> (\<exists>m. a = Some m \<and> holds m d)"
  shows "replies_catch_up w d \<Longrightarrow> replies_catch_up (w @ [(d, r)]) d"
proof (induction w)
  case Nil
  then show ?case using assms by (cases r) auto
next
  case (Cons dm w)
  then show ?case using catches_up_reply [OF _ assms(1)] by (cases dm, cases "snd dm") auto
qed

lemma catches_up_tail: "catches_up m ((d0, r) # w) d \<Longrightarrow> \<forall>sig. r \<noteq> Signal sig \<Longrightarrow> holds m d0 \<and> catches_up m w d"
  by (cases r) simp_all

lemma replies_catch_up_tail: "replies_catch_up ((d0, r) # w) d \<Longrightarrow> replies_catch_up w d"
  by (cases r) simp_all

section \<open>Pictures of the daemon\<close>

definition leads_to :: "os \<Rightarrow> (nat \<Rightarrow> nat) \<Rightarrow> bus_answers \<Rightarrow> daemon \<Rightarrow> daemon \<Rightarrow> bool" where
  "leads_to os gid ba d0 d \<longleftrightarrow> (\<exists>es. d = fold (daemon_handle os gid ba) es d0)"

lemma leads_to_refl: "leads_to os gid ba d d"
  unfolding leads_to_def by (rule exI [of _ "[]"]) simp

lemma leads_to_step: "leads_to os gid ba d0 d \<Longrightarrow> leads_to os gid ba d0 (daemon_handle os gid ba e d)"
proof -
  assume "leads_to os gid ba d0 d"
  then obtain es where "d = fold (daemon_handle os gid ba) es d0" by (auto simp: leads_to_def)
  then have "daemon_handle os gid ba e d = fold (daemon_handle os gid ba) (es @ [e]) d0" by simp
  then show ?thesis unfolding leads_to_def by blast
qed

text \<open>What the tile draws when it reads everything from the daemon \<open>d\<close> at once.\<close>

definition picture :: "os \<Rightarrow> daemon \<Rightarrow> tile_face" where
  "picture os d = toggle_render (view_of_state True (pump_battery_age_ms os (d_pump d)) (ds_state (d_service d)))"

definition past :: "os \<Rightarrow> (nat \<Rightarrow> nat) \<Rightarrow> bus_answers \<Rightarrow> options \<Rightarrow> daemon \<Rightarrow> daemon \<Rightarrow> bool" where
  "past os gid ba opts d d0 \<longleftrightarrow> daemon_reachable os gid ba opts d0 \<and> leads_to os gid ba d0 d"

definition sent_by :: "os \<Rightarrow> (nat \<Rightarrow> nat) \<Rightarrow> bus_answers \<Rightarrow> options \<Rightarrow> daemon \<Rightarrow> daemon \<times> bus_message \<Rightarrow> bool" where
  "sent_by os gid ba opts d = (\<lambda>(d0, m). past os gid ba opts d d0 \<and>
     (exported (d_service d) \<longrightarrow> exported (d_service d0)) \<and> (\<forall>r. m = AgeReply r \<longrightarrow> r = get_age os d0))"

definition on_screen :: "os \<Rightarrow> (nat \<Rightarrow> nat) \<Rightarrow> bus_answers \<Rightarrow> options \<Rightarrow> daemon \<Rightarrow> tile \<Rightarrow> bool" where
  "on_screen os gid ba opts d t \<longleftrightarrow>
     (f_visible (t_face t) \<longrightarrow> (\<exists>d0. past os gid ba opts d d0 \<and> t_face t = picture os d0))"

definition chain_data :: "os \<Rightarrow> (nat \<Rightarrow> nat) \<Rightarrow> bus_answers \<Rightarrow> options \<Rightarrow> chain \<Rightarrow> bool" where
  "chain_data os gid ba opts c \<longleftrightarrow>
     daemon_reachable os gid ba opts (ch_daemon c) \<and>
     list_all (sent_by os gid ba opts (ch_daemon c)) (ch_wire c) \<and>
     (exported (d_service (ch_daemon c)) \<longrightarrow>
        (\<forall>p < t_proxies (ch_tile c). catches_up (ch_caches c p) (ch_wire c) (ch_daemon c)) \<and>
        replies_catch_up (ch_wire c) (ch_daemon c) \<and>
        on_screen os gid ba opts (ch_daemon c) (ch_tile c))"

lemma past_step: "past os gid ba opts d d0 \<Longrightarrow> past os gid ba opts (daemon_handle os gid ba e d) d0"
  by (simp add: past_def leads_to_step)

lemma past_refl: "daemon_reachable os gid ba opts d \<Longrightarrow> past os gid ba opts d d"
  by (simp add: past_def leads_to_refl)

lemma on_screen_step: "on_screen os gid ba opts d t \<Longrightarrow> on_screen os gid ba opts (daemon_handle os gid ba e d) t"
  unfolding on_screen_def using past_step by blast

text \<open>The signals of one event of the daemon lead from its state before to its state after.\<close>

lemma daemon_handle_exported:
  "ds_conn (d_service d) \<Longrightarrow> \<not> is_acquired e \<Longrightarrow>
   exported (d_service (daemon_handle os gid ba e d)) \<longleftrightarrow> exported (d_service d)"
proof -
  have "exported (fold ds_publish vs ds) = exported ds" for vs ds by (induction vs arbitrary: ds) simp_all
  then show "\<not> is_acquired e \<Longrightarrow> ?thesis" by (cases e) (simp_all add: with_pump_def)
qed

lemma daemon_handle_signals:
  assumes "daemon_reachable os gid ba opts d" "exported (d_service d)" "\<not> is_acquired e"
  shows "\<exists>sigs. ds_out (d_service (daemon_handle os gid ba e d)) = ds_out (d_service d) @ sigs
    \<and> fold apply_signal sigs (bus_view (ds_state (d_service d))) = bus_view (ds_state (d_service (daemon_handle os gid ba e d)))"
proof (cases e)
  case (ToPump ev)
  have "ds_published (d_service d)"
    using daemon_reachable_inv [OF assms(1)] by (auto simp: daemon_inv_def on_bus_def split: if_splits)
  from ds_publish_signals [OF this assms(2)] show ?thesis unfolding ToPump daemon_handle.simps with_pump_def by simp blast
qed (use assms(3) in simp_all)

lemma data_at_daemon:
  assumes c: "chain_calls c" "chain_data os gid ba opts c"
  shows "chain_data os gid ba opts (chain_handle os gid ba tgid hid (AtDaemon e) c)"
proof (cases "is_acquired e \<and> ds_conn (d_service (ch_daemon c))")
  case True
  with c show ?thesis by simp
next
  case False
  define d d' where "d = ch_daemon c" and "d' = daemon_handle os gid ba e d"
  have r: "daemon_reachable os gid ba opts d" using c(2) by (simp add: chain_data_def d_def)
  then have r': "daemon_reachable os gid ba opts d'" by (simp add: d'_def daemon_reachable.handled)
  show ?thesis
  proof (cases "ds_conn (d_service d)")
    case conn: False
    have u: "untouched (ch_tile c)" "ch_wire c = []" "ds_out (d_service d') = ds_out (d_service d)"
      using c(1) conn unconnected_silent [OF conn, of os gid ba e] by (simp_all add: chain_calls_def d_def d'_def)
    then have w: "map (\<lambda>sig. (d', Signal sig)) (drop (length (ds_out (d_service d))) (ds_out (d_service d'))) = []" by simp
    have "chain_handle os gid ba tgid hid (AtDaemon e) c = c\<lparr>ch_daemon := d', ch_wire := []\<rparr>"
      using conn u(2) w by (simp add: d_def d'_def Let_def)
    then show ?thesis using r' u by (simp add: chain_data_def on_screen_def untouched_def)
  next
    case conn: True
    then have e: "\<not> is_acquired e" using False by (simp add: d_def)
    have ex: "exported (d_service d') \<longleftrightarrow> exported (d_service d)"
      using daemon_handle_exported [OF conn e] by (simp add: d'_def)
    define sigs where "sigs = drop (length (ds_out (d_service d))) (ds_out (d_service d'))"
    have h: "chain_handle os gid ba tgid hid (AtDaemon e) c = c\<lparr>ch_daemon := d', ch_wire := ch_wire c @ map (\<lambda>sig. (d', Signal sig)) sigs\<rparr>"
      using e by (simp add: d_def d'_def sigs_def Let_def)
    have s: "fold apply_signal sigs (bus_view (ds_state (d_service d))) = bus_view (ds_state (d_service d'))"
      if "exported (d_service d)"
      using daemon_handle_signals [OF r that e] by (auto simp: sigs_def d'_def)
    have old: "list_all (sent_by os gid ba opts d') (ch_wire c)"
      using c(2) ex past_step unfolding chain_data_def d_def [symmetric]
      by (auto simp: list_all_iff sent_by_def d'_def)
    have new: "list_all (sent_by os gid ba opts d') (map (\<lambda>sig. (d', Signal sig)) sigs)"
      using past_refl [OF r'] by (simp add: list_all_iff sent_by_def)
    have scr: "on_screen os gid ba opts d t \<Longrightarrow> on_screen os gid ba opts d' t" for t
      unfolding d'_def by (rule on_screen_step)
    show ?thesis
    proof (cases "exported (d_service d)")
      case True
      let ?w = "ch_wire c @ map (\<lambda>sig. (d', Signal sig)) sigs"
      have "(\<forall>p < t_proxies (ch_tile c). catches_up (ch_caches c p) (ch_wire c) d) \<and>
          replies_catch_up (ch_wire c) d \<and> on_screen os gid ba opts d (ch_tile c)"
        using c(2) True by (simp add: chain_data_def d_def)
      then have "(\<forall>p < t_proxies (ch_tile c). catches_up (ch_caches c p) ?w d') \<and>
          replies_catch_up ?w d' \<and> on_screen os gid ba opts d' (ch_tile c)"
        using catches_up_step [OF s [OF True]] replies_catch_up_step [OF s [OF True]] scr by blast
      then show ?thesis using r' old new unfolding h chain_data_def by simp
    next
      case False
      then show ?thesis using r' old new ex unfolding h chain_data_def by simp
    qed
  qed
qed

text \<open>The daemon's replies.\<close>

lemma get_all_holds: "exported (d_service d) \<Longrightarrow> \<exists>m. get_all os d = Some m \<and> holds m d"
  by (simp add: get_all_def holds_def bus_view_def get_property_age [of _ "Some (pump_battery_age_ms os (d_pump d))"])

lemma get_age_exported: "exported (d_service d) \<Longrightarrow> get_age os d = Some (pump_battery_age_ms os (d_pump d))"
  by (simp add: get_age_def daemon_get_property_def get_property_trampoline_def get_property_def)

lemma data_answer:
  assumes c: "chain_data os gid ba opts c"
  shows "chain_data os gid ba opts (chain_handle os gid ba tgid hid Answer c)"
proof (cases "ch_requests c")
  case Nil
  with c show ?thesis by simp
next
  case (Cons r rs)
  let ?m = "reply_to os (ch_daemon c) r"
  have ns: "\<forall>sig. ?m \<noteq> Signal sig" by (cases r) simp_all
  have all: "\<forall>a. ?m = AllReply a \<longrightarrow> (\<exists>m. a = Some m \<and> holds m (ch_daemon c))" if "exported (d_service (ch_daemon c))"
    using get_all_holds [OF that, of os] by (cases r) auto
  have "sent_by os gid ba opts (ch_daemon c) (ch_daemon c, ?m)"
    using c past_refl by (cases r) (auto simp: chain_data_def sent_by_def)
  then show ?thesis
    using c Cons catches_up_reply [OF _ ns] replies_catch_up_reply [OF ns all]
    by (simp add: chain_data_def)
qed

text \<open>What an event that draws nothing new leaves: the screen as it was, or hidden.\<close>

definition no_news :: "tile \<Rightarrow> tile \<Rightarrow> bool" where
  "no_news t t' \<longleftrightarrow> t_face t' = t_face t \<or> \<not> f_visible (t_face t')"

lemma no_news_screen: "no_news t t' \<Longrightarrow> on_screen os gid ba opts d t \<Longrightarrow> on_screen os gid ba opts d t'"
  by (auto simp: no_news_def on_screen_def)

lemma no_news_event:
  assumes "e = Appeared \<or> e = StaleFire \<or> e = Destroy \<or> e = ProxyDone made"
  shows "no_news t (tile_handle tgid hid (cache, e) t)"
  using assms by (auto simp: no_news_def on_appeared_def refresh_def on_proxy_def Let_def split: if_splits)

lemma tile_event_proxies:
  assumes "e = Appeared \<or> e = StaleFire \<or> e = Destroy \<or> e = AgeDone a"
  shows "t_proxies (tile_handle tgid hid (cache, e) t) = t_proxies t"
  using assms by (auto simp: on_appeared_def refresh_calls on_age_def)

lemma data_tile:
  assumes "chain_data os gid ba opts c" "e = Appeared \<or> e = StaleFire \<or> e = Destroy"
  shows "chain_data os gid ba opts (at_tile tgid hid e c)"
proof -
  have "no_news (ch_tile c) (tile_handle tgid hid (proxy_cache c, e) (ch_tile c))"
    using assms(2) by (intro no_news_event) auto
  then show ?thesis
    using assms no_news_screen tile_event_proxies [of e _ tgid hid "proxy_cache c" "ch_tile c"]
    unfolding chain_data_def at_tile_sels by auto
qed

text \<open>The completion of a read draws a picture of the daemon at the moment it replied.\<close>

lemma age_draws:
  assumes c: "chain_calls c" "chain_data os gid ba opts c" and ex: "exported (d_service (ch_daemon c))"
    and w: "ch_wire c = (d0, AgeReply a) # w" and p: "t_proxy (ch_tile c) = Some p"
  shows "t_face (tile_handle tgid hid (proxy_cache c, AgeDone a) (ch_tile c)) = picture os d0"
    and "past os gid ba opts (ch_daemon c) d0"
proof -
  have s: "past os gid ba opts (ch_daemon c) d0" "exported (d_service d0)" "a = get_age os d0"
    using c(2) ex w by (auto simp: chain_data_def sent_by_def)
  have q: "p < t_proxies (ch_tile c)" "\<not> t_cancelled (ch_tile c)" "0 < t_reading (ch_tile c)"
    using c(1) p w by (auto simp: chain_calls_def proxy_kept_def calls_counted_def)
  have "holds (ch_caches c p) d0"
    using c(2) ex w q(1) by (auto simp: chain_data_def)
  then have "\<forall>k \<in> set signalled. proxy_cache c k = get_property None (ds_state (d_service d0)) k"
    using p by (simp add: holds_def bus_view_def proxy_cache_def)
  from tile_view_up_to_date [OF this, of "ch_tile c\<lparr>t_reading := t_reading (ch_tile c) - 1, t_age_ms := pump_battery_age_ms os (d_pump d0)\<rparr>" True]
  show "t_face (tile_handle tgid hid (proxy_cache c, AgeDone a) (ch_tile c)) = picture os d0"
    using q p s(3) get_age_exported [OF s(2), of os] by (simp add: on_age_def picture_def)
  show "past os gid ba opts (ch_daemon c) d0" by (rule s(1))
qed

lemma data_deliver:
  assumes c: "chain_calls c" "chain_data os gid ba opts c"
  shows "chain_data os gid ba opts (chain_handle os gid ba tgid hid Deliver c)"
proof (cases "ch_wire c")
  case Nil
  with c show ?thesis by simp
next
  case (Cons dm w)
  obtain d0 m where dm: "dm = (d0, m)" by (cases dm)
  let ?d = "ch_daemon c" and ?t = "ch_tile c"
  have w: "ch_wire c = (d0, m) # w" using Cons dm by simp
  have r: "daemon_reachable os gid ba opts ?d" "list_all (sent_by os gid ba opts ?d) w"
    using c(2) w by (simp_all add: chain_data_def)
  have h: "chain_handle os gid ba tgid hid Deliver c = receive tgid hid m (c\<lparr>ch_wire := w\<rparr>)" using w by simp
  have old: "\<And>p. p < t_proxies ?t \<Longrightarrow> catches_up (ch_caches c p) ((d0, m) # w) ?d"
    "replies_catch_up ((d0, m) # w) ?d" "on_screen os gid ba opts ?d ?t" if "exported (d_service ?d)"
    using c(2) w that by (simp_all add: chain_data_def)
  show ?thesis
  proof (cases m)
    case (Signal sig)
    define c' where "c' = receive tgid hid (Signal sig) (c\<lparr>ch_wire := w\<rparr>)"
    have f: "refreshed (signal_calls ?t) (c\<lparr>ch_wire := w, ch_caches := (\<lambda>p. apply_signal sig (ch_caches c p))\<rparr>) c'"
      using receive_signal [of "c\<lparr>ch_wire := w\<rparr>" sig tgid hid] by (simp add: c'_def)
    then have "no_news ?t (ch_tile c')" by (auto simp: refreshed_def no_news_def)
    from no_news_screen [OF this] f r old Signal have "chain_data os gid ba opts c'"
      by (simp add: chain_data_def refreshed_def)
    then show ?thesis unfolding h Signal c'_def .
  next
    case (AllReply a)
    define caches where "caches = (ch_caches c)(t_proxies ?t := (case a of None \<Rightarrow> (\<lambda>_. None) | Some m \<Rightarrow> m))"
    define cache where "cache = proxy_cache (c\<lparr>ch_wire := w, ch_caches := caches\<rparr>)"
    define t' where "t' = tile_handle tgid hid (cache, ProxyDone True) ?t"
    have n: "no_news ?t t'" unfolding t'_def by (rule no_news_event) simp
    have p: "t_proxies t' \<le> Suc (t_proxies ?t)" by (simp add: t'_def on_proxy_def refresh_calls Let_def)
    have up: "catches_up (caches p) w ?d" if "exported (d_service ?d)" "p < t_proxies t'" for p
    proof (cases "p < t_proxies ?t")
      case True
      then show ?thesis using old(1) [OF that(1) True] AllReply by (simp add: caches_def)
    next
      case False
      then have "p = t_proxies ?t" using that(2) p by simp
      then show ?thesis using old(2) [OF that(1)] AllReply by (auto simp: caches_def)
    qed
    have c': "receive tgid hid m (c\<lparr>ch_wire := w\<rparr>) = at_tile tgid hid (ProxyDone True) (c\<lparr>ch_wire := w, ch_caches := caches\<rparr>)"
      by (simp add: AllReply caches_def)
    have t': "ch_tile (receive tgid hid m (c\<lparr>ch_wire := w\<rparr>)) = t'" unfolding c' by (simp add: t'_def cache_def)
    show ?thesis
      using r up no_news_screen [OF n old(3)] replies_catch_up_tail [OF old(2)]
      unfolding h chain_data_def t' unfolding c' by simp
  next
    case (AgeReply a)
    have "on_screen os gid ba opts ?d (tile_handle tgid hid (proxy_cache c, AgeDone a) ?t)" if ex: "exported (d_service ?d)"
    proof (cases "t_proxy ?t")
      case None
      then have "t_cancelled ?t" using c(1) w AgeReply by (auto simp: chain_calls_def proxy_kept_def calls_counted_def)
      then show ?thesis using old(3) [OF ex] by (simp add: on_screen_def on_age_def)
    next
      case (Some p)
      with age_draws [OF c ex w [unfolded AgeReply] Some] show ?thesis unfolding on_screen_def by blast
    qed
    then show ?thesis
      using r old(1,2) AgeReply tile_event_proxies [of "AgeDone a" a tgid hid _ ?t] unfolding h
      by (simp add: chain_data_def del: tile_handle.simps)
  qed
qed

section \<open>The invariant of the chain\<close>

definition chain_inv :: "os \<Rightarrow> (nat \<Rightarrow> nat) \<Rightarrow> bus_answers \<Rightarrow> options \<Rightarrow> chain \<Rightarrow> bool" where
  "chain_inv os gid ba opts c \<longleftrightarrow> chain_calls c \<and> chain_data os gid ba opts c"

lemma chain_inv_handle:
  "chain_inv os gid ba opts c \<Longrightarrow> chain_inv os gid ba opts (chain_handle os gid ba tgid hid e c)"
proof (cases e)
  case (AtDaemon ev)
  then show "chain_inv os gid ba opts c \<Longrightarrow> ?thesis"
    using chain_calls_handle data_at_daemon unfolding chain_inv_def by blast
next
  case Answer
  then show "chain_inv os gid ba opts c \<Longrightarrow> ?thesis" using chain_calls_handle data_answer unfolding chain_inv_def by blast
next
  case Deliver
  then show "chain_inv os gid ba opts c \<Longrightarrow> ?thesis" using chain_calls_handle data_deliver unfolding chain_inv_def by blast
qed (use chain_calls_handle [of c os gid ba tgid hid e] data_tile [of os gid ba opts c] in
    \<open>simp_all add: chain_inv_def\<close>)

interpretation chain_events: event_handler "chain_handle os gid ba tgid hid" "chain_inv os gid ba opts"
  for os gid ba opts tgid hid
  by unfold_locales (rule chain_inv_handle)

lemma unconnected_start: "\<not> ds_conn (d_service (daemon_start os gid ba bus reg reply opts b))"
proof -
  have "ds_conn (fold ds_publish vs ds) = ds_conn ds" for vs ds by (induction vs arbitrary: ds) simp_all
  then show ?thesis by (simp add: daemon_start_def with_pump_def ds_start_def new_service_def)
qed

lemma untouched_new: "untouched (new_tile tgid watch)" "t_making (new_tile tgid watch) = 0" "t_reading (new_tile tgid watch) = 0"
  by (simp_all add: untouched_def new_tile_def)

lemma chain_reachable_inv: "chain_reachable os gid ba opts tgid hid c \<Longrightarrow> chain_inv os gid ba opts c"
proof (induction rule: chain_reachable.induct)
  case (chain_started bus reg reply b watch)
  let ?d = "daemon_start os gid ba bus reg reply opts b"
  have "\<not> exported (d_service ?d)" using unconnected_start by (simp add: exported_def)
  moreover have "proxy_kept (new_tile tgid watch)" using untouched_new by (simp add: proxy_kept_def untouched_def)
  moreover have "drawn cache (new_tile tgid watch)" for cache using untouched_new by (simp add: drawn_def untouched_def)
  ultimately show ?case
    using untouched_new daemon_reachable.started [of os gid ba opts bus reg reply b] unconnected_start
    by (simp add: chain_inv_def chain_calls_def chain_data_def chain_start_def calls_counted_def)
next
  case (chain_handled c e)
  then show ?case by (simp add: chain_inv_handle)
qed

end
