(* ===== verification/Bus_Chain_Runs.thy ===== *)
theory Bus_Chain_Runs
  imports Bus_Chain
begin

text \<open>
  Runs of the daemon and the tile joined by the bus: how much traffic there can be until
  nothing is under way, what the tile shows then, and what a picture of the daemon says.
\<close>

section \<open>Settling\<close>

definition bus_idle :: "chain \<Rightarrow> bool" where
  "bus_idle c \<longleftrightarrow> ch_requests c = [] \<and> ch_wire c = []"

text \<open>How many steps of the bus are needed at most until nothing is under way.\<close>

fun request_weight :: "bus_request \<Rightarrow> nat" where
  "request_weight GetAll = 4"
| "request_weight GetAge = 2"

fun message_weight :: "nat \<Rightarrow> bus_message \<Rightarrow> nat" where
  "message_weight n (Signal sig) = Suc (2 * n)"
| "message_weight n (AllReply r) = 3"
| "message_weight n (AgeReply r) = 1"

definition traffic :: "chain \<Rightarrow> nat" where
  "traffic c = sum_list (map request_weight (ch_requests c)) +
     sum_list (map (message_weight (length (t_connected (ch_tile c)) + t_making (ch_tile c)) \<circ> snd) (ch_wire c))"

lemma message_weight_mono: "m \<le> n \<Longrightarrow> message_weight m x \<le> message_weight n x"
  by (cases x) simp_all

lemma wire_weight_mono:
  "m \<le> n \<Longrightarrow> sum_list (map (message_weight m \<circ> snd) w) \<le> sum_list (map (message_weight n \<circ> snd) w)"
  by (induction w) (simp_all add: message_weight_mono add_mono)

lemma traffic_idle: "traffic c = 0 \<longleftrightarrow> bus_idle c"
proof -
  have "0 < request_weight r" for r by (cases r) simp_all
  moreover have "0 < message_weight n m" for n m by (cases m) simp_all
  ultimately show ?thesis by (cases "ch_requests c"; cases "ch_wire c") (auto simp: traffic_def bus_idle_def)
qed

lemma traffic_answer: "ch_requests c \<noteq> [] \<Longrightarrow> traffic (chain_handle os gid ba tgid hid Answer c) < traffic c"
proof (cases "ch_requests c")
  case (Cons r rs)
  then show ?thesis by (cases r) (simp_all add: traffic_def)
qed simp

lemma traffic_less:
  assumes "ch_wire c' = w" "ch_requests c' = ch_requests c @ replicate k GetAge" "ch_wire c = (d, m) # w"
    and "length (t_connected (ch_tile c')) + t_making (ch_tile c') \<le> length (t_connected (ch_tile c)) + t_making (ch_tile c)"
    and "2 * k < message_weight (length (t_connected (ch_tile c)) + t_making (ch_tile c)) m"
  shows "traffic c' < traffic c"
proof -
  have "traffic c' \<le> sum_list (map request_weight (ch_requests c)) + 2 * k
      + sum_list (map (message_weight (length (t_connected (ch_tile c)) + t_making (ch_tile c)) \<circ> snd) w)"
    using wire_weight_mono [OF assms(4), of w] by (simp add: traffic_def assms(1,2) sum_list_replicate)
  also have "\<dots> < traffic c" using assms(3,5) by (simp add: traffic_def)
  finally show ?thesis .
qed

lemma traffic_deliver:
  assumes "ch_wire c \<noteq> []"
  shows "traffic (chain_handle os gid ba tgid hid Deliver c) < traffic c"
proof -
  obtain d m w where w: "ch_wire c = (d, m) # w" using assms by (cases "ch_wire c") auto
  show ?thesis
  proof (cases m)
    case (Signal sig)
    define c' where "c' = receive tgid hid (Signal sig) (c\<lparr>ch_wire := w\<rparr>)"
    have "refreshed (signal_calls (ch_tile c)) (c\<lparr>ch_wire := w, ch_caches := (\<lambda>p. apply_signal sig (ch_caches c p))\<rparr>) c'"
      using receive_signal [of "c\<lparr>ch_wire := w\<rparr>" sig tgid hid] by (simp add: c'_def)
    then have "traffic c' < traffic c"
      by (intro traffic_less [of c' w c "signal_calls (ch_tile c)" d "Signal sig"])
        (auto simp: refreshed_def w Signal signal_calls_def)
    then show ?thesis using w Signal by (simp add: c'_def del: receive.simps)
  next
    case (AllReply a)
    let ?c = "receive tgid hid (AllReply a) (c\<lparr>ch_wire := w\<rparr>)"
    have "\<exists>k \<le> 1. ch_requests ?c = ch_requests c @ replicate k GetAge"
      by (auto simp: asked_def on_proxy_def refresh_def Let_def intro: exI [of _ 0] exI [of _ 1])
    then obtain k where "k \<le> 1" "ch_requests ?c = ch_requests c @ replicate k GetAge" by blast
    then have "traffic ?c < traffic c"
      by (intro traffic_less [of ?c w c k d "AllReply a"])
        (simp_all add: w AllReply on_proxy_def refresh_calls Let_def)
    then show ?thesis using w AllReply by simp
  next
    case (AgeReply a)
    let ?c = "receive tgid hid (AgeReply a) (c\<lparr>ch_wire := w\<rparr>)"
    have "traffic ?c < traffic c"
      by (intro traffic_less [of ?c w c 0 d "AgeReply a"])
        (simp_all add: w AgeReply on_age_def asked_def)
    then show ?thesis using w AgeReply by simp
  qed
qed

text \<open>A round of the bus, and as many rounds as there is traffic.\<close>

definition bus_rounds :: "nat \<Rightarrow> chain_event list" where
  "bus_rounds n = concat (replicate n [Answer, Deliver])"

lemma bus_rounds_simps [simp]: "bus_rounds 0 = []" "bus_rounds (Suc n) = Answer # Deliver # bus_rounds n"
  by (simp_all add: bus_rounds_def)

lemma rounds_idle:
  "traffic c \<le> n \<Longrightarrow> bus_idle (fold (chain_handle os gid ba tgid hid) (bus_rounds n) c)"
proof (induction n arbitrary: c)
  case 0
  then show ?case by (simp add: traffic_idle)
next
  case (Suc n)
  let ?h = "chain_handle os gid ba tgid hid"
  let ?c = "?h Deliver (?h Answer c)"
  have "traffic ?c \<le> n"
  proof (cases "bus_idle c")
    case True
    then show ?thesis using traffic_idle [of c] by (simp add: bus_idle_def)
  next
    case False
    have a: "traffic (?h Answer c) \<le> traffic c" using traffic_answer [of c os gid ba tgid hid] by (cases "ch_requests c = []") auto
    have b: "traffic (?h Deliver c) \<le> traffic c" for c using traffic_deliver [of c os gid ba tgid hid] by (cases "ch_wire c = []") auto
    have "traffic ?c < traffic c"
    proof (cases "ch_requests c = []")
      case True
      then have "ch_wire c \<noteq> []" "?h Answer c = c" using False by (simp_all add: bus_idle_def)
      then show ?thesis using traffic_deliver [of c os gid ba tgid hid] by simp
    next
      case False
      then show ?thesis using traffic_answer [OF False, of os gid ba tgid hid] b [of "?h Answer c"] by linarith
    qed
    then show ?thesis using Suc.prems by simp
  qed
  from Suc.IH [OF this] show ?case by simp
qed

text \<open>A tile that waits for the daemon or follows it goes on doing so.\<close>

definition watching :: "tile \<Rightarrow> bool" where
  "watching t \<longleftrightarrow> \<not> t_cancelled t \<and> (t_proxy t \<noteq> None \<or> 0 < t_making t)"

lemma watching_answer: "watching (ch_tile c) \<Longrightarrow>
  watching (ch_tile (chain_handle os gid ba tgid hid Answer c)) \<and> ch_daemon (chain_handle os gid ba tgid hid Answer c) = ch_daemon c"
  by (cases "ch_requests c") simp_all

lemma watching_deliver:
  assumes "watching (ch_tile c)"
  shows "watching (ch_tile (chain_handle os gid ba tgid hid Deliver c)) \<and>
    ch_daemon (chain_handle os gid ba tgid hid Deliver c) = ch_daemon c"
proof (cases "ch_wire c")
  case (Cons dm w)
  obtain d m where dm: "dm = (d, m)" by (cases dm)
  show ?thesis
  proof (cases m)
    case (Signal sig)
    show ?thesis
      using receive_signal [of "c\<lparr>ch_wire := w\<rparr>" sig tgid hid] assms Cons dm Signal
      by (simp add: refreshed_def watching_def del: receive.simps)
  qed (use assms Cons dm in \<open>auto simp: watching_def on_proxy_def on_age_def refresh_calls Let_def\<close>)
qed (use assms in simp)

lemma rounds_watching:
  "watching (ch_tile c) \<Longrightarrow>
   watching (ch_tile (fold (chain_handle os gid ba tgid hid) (bus_rounds n) c)) \<and>
   ch_daemon (fold (chain_handle os gid ba tgid hid) (bus_rounds n) c) = ch_daemon c"
proof (induction n arbitrary: c)
  case (Suc n)
  let ?h = "chain_handle os gid ba tgid hid"
  have "watching (ch_tile (?h Deliver (?h Answer c))) \<and> ch_daemon (?h Deliver (?h Answer c)) = ch_daemon c"
    using watching_answer [OF Suc.prems, of os gid ba tgid hid]
      watching_deliver [of "?h Answer c" os gid ba tgid hid] by simp
  with Suc.IH [of "?h Deliver (?h Answer c)"] show ?case by (simp del: chain_handle.simps)
qed simp

text \<open>Nothing under way: the tile shows what the daemon holds.\<close>

lemma idle_shows:
  assumes "chain_inv os gid ba opts c" "bus_idle c" "watching (ch_tile c)" "exported (d_service (ch_daemon c))"
  shows "t_face (ch_tile c) = toggle_render (view_of_state True (t_age_ms (ch_tile c)) (ds_state (d_service (ch_daemon c))))"
proof -
  have i: "t_making (ch_tile c) = 0" "t_reading (ch_tile c) = 0" "proxy_kept (ch_tile c)" "drawn (proxy_cache c) (ch_tile c)"
    using assms(1,2) by (simp_all add: chain_inv_def chain_calls_def calls_counted_def bus_idle_def)
  then obtain p where p: "t_proxy (ch_tile c) = Some p" "p < t_proxies (ch_tile c)"
    using assms(3) by (auto simp: watching_def proxy_kept_def)
  have "holds (ch_caches c p) (ch_daemon c)"
    using assms(1,2,4) p(2) by (auto simp: chain_inv_def chain_data_def bus_idle_def)
  then have "\<forall>k \<in> set signalled. proxy_cache c k = get_property None (ds_state (d_service (ch_daemon c))) k"
    using p(1) by (simp add: holds_def bus_view_def proxy_cache_def)
  from tile_view_up_to_date [OF this] show ?thesis using i(2,4) p(1) by (simp add: drawn_def)
qed

section \<open>What a picture says\<close>

text \<open>
  The contract of the tile, without its code: the accent, the warning and the line of text that
  belong to an age and a state of the daemon.
\<close>

definition face_tells :: "tile_face \<Rightarrow> int \<Rightarrow> state \<Rightarrow> bool" where
  "face_tells face age v \<longleftrightarrow> f_visible face
    \<and> (f_checked face \<longleftrightarrow> v_channel_open v \<and> v_have_battery v)
    \<and> (f_warning face \<longleftrightarrow> 0 < v_parse_refusals v \<or> list_ex (\<lambda>(k, c). cv_framing_anomaly c) (v_components v))
    \<and> (pod_levels v \<noteq> {} \<longrightarrow> f_subtitle face =
        (if v_channel_open v then '''' else format_age (Some age) @ '' '' @ SEP @ '' '')
        @ ''L '' @ pod_text (pod_level v ''left'') @ '' '' @ SEP @ '' R '' @ pod_text (pod_level v ''right''))"

lemma picture_tells:
  assumes "state_truthful v"
  shows "face_tells (toggle_render (view_of_state True age v)) age v"
proof -
  have m: "smap_ok (v_components v)" "list_all (\<lambda>(k, c). k \<in> set tile_keys) (v_components v)"
    using assms by (auto simp: state_truthful_def tile_keys_def list_all_iff)
  have "v_have_battery v" if "pod_levels v \<noteq> {}"
    using assms that by (auto simp: state_truthful_def pod_levels_def pod_level_def)
  then show ?thesis
    using subtitle_of_state [OF m(1), of age] warning_of_state [OF m, of age]
    by (simp add: face_tells_def toggle_render_def Let_def) (simp add: view_of_state_def)
qed

lemma reachable_truthful:
  assumes "daemon_reachable os gid ba opts d" "\<not> o_self_test opts"
  shows "state_truthful (snapshot (d_pump d))"
  by (rule snapshot_truthful_reachable [OF daemon_reachable_pump [OF assms(1)] assms(2)])

text \<open>A percentage in it was in a packet.\<close>

lemma pod_level_source:
  assumes "daemon_reachable os gid ba opts d" "\<not> o_self_test opts" "pod_level (snapshot (d_pump d)) k = Some l"
  shows "l \<le> 100 \<and> (\<exists>packet r x. parse_battery packet = Some r
        \<and> x \<in> set (components r) \<and> component_name (component x) = k \<and> level x = Some l \<and> raw_level x = l)"
proof -
  obtain c where "map_of (v_components (snapshot (d_pump d))) k = Some c" "cv_level c = Some l"
    using assms(3) by (auto simp: pod_level_def bind_eq_Some_conv)
  from daemon_level_source [OF assms(1,2) this] show ?thesis by blast
qed

section \<open>A run\<close>

text \<open>
  BlueZ accepts the provider, the bus is acquired, two ticks pass, the Shell sees the name and
  makes its proxy; then the pods report, and nothing of that has reached the Shell yet.
\<close>

definition sample_answers :: bus_answers where
  "sample_answers = \<lparr>ba_managed = \<lambda>i. Some sample_objects, ba_reg = \<lambda>i. 5, ba_owner = 1\<rparr>"

definition waiting_chain :: chain where
  "waiting_chain = fold (chain_handle sample_os Suc sample_answers Suc Suc)
     [AtDaemon (ProviderAppeared (Some sample_objects)), AtDaemon (ProviderRegisterDone True), AtDaemon (BusAcquired 3),
      AtDaemon (ToPump (Fire 1 None)), AtDaemon (ToPump (Fire 1 None)), NameUp, Answer, Deliver]
     (chain_start (daemon_start sample_os Suc sample_answers True 1 (Some sample_objects) sample_options True) Suc 1)"

definition sample_chain :: chain where
  "sample_chain = chain_handle sample_os Suc sample_answers Suc Suc (AtDaemon (ToPump (Fire 1 None))) waiting_chain"

definition settled_chain :: chain where
  "settled_chain = fold (chain_handle sample_os Suc sample_answers Suc Suc) (bus_rounds (traffic sample_chain)) sample_chain"

lemma chain_reachable_fold:
  "chain_reachable os gid ba opts tgid hid c \<Longrightarrow>
   chain_reachable os gid ba opts tgid hid (fold (chain_handle os gid ba tgid hid) es c)"
  by (induction es arbitrary: c) (simp_all add: chain_reachable.chain_handled)

lemma waiting_chain_reachable: "chain_reachable sample_os Suc sample_answers sample_options Suc Suc waiting_chain"
  unfolding waiting_chain_def by (rule chain_reachable_fold [OF chain_reachable.chain_started])

lemma sample_chain_reachable: "chain_reachable sample_os Suc sample_answers sample_options Suc Suc sample_chain"
  unfolding sample_chain_def by (rule chain_reachable.chain_handled [OF waiting_chain_reachable])

lemma settled_chain_reachable: "chain_reachable sample_os Suc sample_answers sample_options Suc Suc settled_chain"
  unfolding settled_chain_def by (rule chain_reachable_fold [OF sample_chain_reachable])

lemma sample_chain_values:
  "let c = sample_chain; v = snapshot (d_pump (ch_daemon c)) in
   exported (d_service (ch_daemon c)) \<and> \<not> f_visible (t_face (ch_tile c)) \<and> watching (ch_tile c) \<and> \<not> bus_idle c
   \<and> v_channel_open v \<and> v_have_battery v \<and> pod_level v ''left'' = Some 96 \<and> pod_level v ''right'' = Some 94"
  by code_simp

lemma settled_chain_values:
  "let c = settled_chain; face = t_face (ch_tile c) in
   exported (d_service (ch_daemon c)) \<and> f_visible face \<and> f_subtitle face = ''L 96% '' @ SEP @ '' R 94%''"
  by code_simp

text \<open>
  That the object is exported is needed: when GIO refuses to register it, the daemon goes on and
  still takes the name, so the Shell makes a proxy that holds nothing, and the tile says that
  nothing is connected while the channel is open and there is a reading.
\<close>

lemma unexported_misleads:
  "let c = fold (chain_handle sample_os Suc sample_answers Suc Suc)
       ([AtDaemon (BusAcquired 0), AtDaemon (ToPump (Fire 1 None)), AtDaemon (ToPump (Fire 1 None)),
         AtDaemon (ToPump (Fire 1 None)), NameUp] @ bus_rounds 3)
       (chain_start (daemon_start sample_os Suc sample_answers True 1 (Some sample_objects) sample_options True) Suc 1)
   in bus_idle c \<and> f_visible (t_face (ch_tile c)) \<and> f_subtitle (t_face (ch_tile c)) = ''Not connected''
     \<and> v_channel_open (snapshot (d_pump (ch_daemon c))) \<and> v_have_battery (snapshot (d_pump (ch_daemon c)))"
  by code_simp

section \<open>The end of the run\<close>

lemma settled_tells:
  assumes "chain_reachable os gid ba opts tgid hid c" and "glib_ids gid" and "\<not> o_self_test opts"
    and "exported (d_service (ch_daemon c))" and "watching (ch_tile c)" and "traffic c \<le> n"
    and "c' = fold (chain_handle os gid ba tgid hid) (bus_rounds n) c"
  shows "bus_idle c' \<and> ch_daemon c' = ch_daemon c
    \<and> face_tells (t_face (ch_tile c')) (t_age_ms (ch_tile c')) (snapshot (d_pump (ch_daemon c)))"
proof -
  have r: "chain_reachable os gid ba opts tgid hid c'" unfolding assms(7) by (rule chain_reachable_fold [OF assms(1)])
  have i: "bus_idle c'" unfolding assms(7) by (rule rounds_idle [OF assms(6)])
  have w: "watching (ch_tile c')" "ch_daemon c' = ch_daemon c"
    using rounds_watching [OF assms(5)] by (simp_all add: assms(7))
  have d: "daemon_reachable os gid ba opts (ch_daemon c)"
    using chain_reachable_inv [OF assms(1)] by (simp add: chain_inv_def chain_data_def)
  have "t_face (ch_tile c') = toggle_render (view_of_state True (t_age_ms (ch_tile c')) (snapshot (d_pump (ch_daemon c))))"
    using idle_shows [OF chain_reachable_inv [OF r] i w(1)] w(2) assms(4) daemon_on_bus(2) [OF d assms(2,3)] by simp
  then show ?thesis using picture_tells [OF reachable_truthful [OF d assms(3)]] i w(2) by simp
qed

section \<open>Properties\<close>





end
