(* ===== verification/Capture.thy ===== *)
theory Capture
  imports Session_Monitor Help_Texts
begin

text \<open>
  The capture file of the command line (\<open>class Capture\<close> and the variants before it in
  \<open>cli/src/main.cpp\<close>): what is written, and a reader of the file. The lemmas say that a file
  of packet lines and notes can be read back packet by packet, with direction, time, bytes and
  label.
\<close>

section \<open>Variants of the run\<close>

datatype caps = D7 | FF | NoCaps

datatype notify = Five | FourFF | FourFE

datatype seq = Ack | Sleep

fun caps_name :: "caps \<Rightarrow> string" where
  "caps_name D7 = ''d7''"
| "caps_name FF = ''ff''"
| "caps_name NoCaps = ''none''"

fun notify_name :: "notify \<Rightarrow> string" where
  "notify_name Five = ''5ff''"
| "notify_name FourFF = ''4ff''"
| "notify_name FourFE = ''4fe''"

text \<open>The text of \<open>s == Seq::Ack ? "ack" : "sleep"\<close>.\<close>

definition seq_name :: "seq \<Rightarrow> string" where
  "seq_name q = (if q = Ack then ''ack'' else ''sleep'')"

fun caps_packet :: "caps \<Rightarrow> bytes" where
  "caps_packet D7 = kHostCapsD7"
| "caps_packet FF = kHostCapsFF"
| "caps_packet NoCaps = []"

fun notify_packet :: "notify \<Rightarrow> bytes" where
  "notify_packet Five = kRequestNotify5"
| "notify_packet FourFF = kRequestNotify4FF"
| "notify_packet FourFE = kRequestNotify4FE"

section \<open>The state of the program\<close>

text \<open>
  The session, and beside it what the packet hook and the output calls change: the capture file
  (open or not, its name and text), the number of packets sent, and what has been printed on
  the standard output. A write to an open file succeeds; the program does not look at the
  results of its \<open>fprintf\<close> calls.
\<close>

record cli = session +
  cap_open :: bool
  cap_path :: string
  cap_text :: string
  sent_count :: int
  c_out :: string

definition new_cli :: "config \<Rightarrow> cli" where
  "new_cli c = session.extend (new_session c)
     \<lparr>cap_open = False, cap_path = '''', cap_text = '''', sent_count = 0, c_out = ''''\<rparr>"

definition say :: "string \<Rightarrow> cli \<Rightarrow> cli" where
  "say t s = s\<lparr>c_out := c_out s @ t\<rparr>"

section \<open>The capture file\<close>

text \<open>\<open>std::tm\<close>, the answer of \<open>localtime\<close>, and the two \<open>strftime\<close> formats.\<close>

record tm =
  tm_year :: int
  tm_mon :: nat
  tm_mday :: nat
  tm_hour :: nat
  tm_min :: nat
  tm_sec :: nat

definition fmt_02d :: "nat \<Rightarrow> string" where
  "fmt_02d n = pad_left (CHR ''0'') 2 (fmt_u n)"

definition iso_time :: "tm \<Rightarrow> string" where
  "iso_time t = fmt_d (tm_year t + 1900) @ ''-'' @ fmt_02d (tm_mon t + 1) @ ''-'' @ fmt_02d (tm_mday t)
     @ ''T'' @ fmt_02d (tm_hour t) @ '':'' @ fmt_02d (tm_min t) @ '':'' @ fmt_02d (tm_sec t)"

definition default_capture_name :: "tm \<Rightarrow> string" where
  "default_capture_name t = ''airprobe-'' @ fmt_d (tm_year t + 1900) @ fmt_02d (tm_mon t + 1) @ fmt_02d (tm_mday t)
     @ ''-'' @ fmt_02d (tm_hour t) @ fmt_02d (tm_min t) @ fmt_02d (tm_sec t) @ ''.cap''"

text \<open>\<open>opened\<close> is whether \<open>fopen\<close> succeeds; mode \<open>w\<close> empties the file.\<close>

definition capture_open :: "bool \<Rightarrow> string \<Rightarrow> cli \<Rightarrow> bool \<times> cli" where
  "capture_open opened path s =
    (if \<not> opened then (False, s) else (True, s\<lparr>cap_open := True, cap_text := '''', cap_path := path\<rparr>))"

definition cap_line :: "string \<Rightarrow> cli \<Rightarrow> cli" where
  "cap_line l s = (if \<not> cap_open s then s else s\<lparr>cap_text := cap_text s @ l @ [newline]\<rparr>)"

definition cap_header :: "tm \<Rightarrow> string \<Rightarrow> caps \<Rightarrow> notify \<Rightarrow> seq \<Rightarrow> cli \<Rightarrow> cli" where
  "cap_header t mac c n q s =
    (if \<not> cap_open s then s
     else fold cap_line
       [''# airprobe capture v1'',
        ''# started '' @ iso_time t,
        ''# mac '' @ mac,
        ''# caps '' @ caps_name c @ '' notify '' @ notify_name n @ '' sequence '' @ seq_name q,
        ''# columns: direction elapsed_ms hex label''] s)"

definition packet_line :: "char \<Rightarrow> int \<Rightarrow> bytes \<Rightarrow> string \<Rightarrow> string" where
  "packet_line dir ms p label = [dir] @ '' '' @ fmt_d ms @ '' '' @ hexcompact p @ '' '' @ label"

definition cap_packet :: "char \<Rightarrow> int \<Rightarrow> bytes \<Rightarrow> string \<Rightarrow> cli \<Rightarrow> cli" where
  "cap_packet dir ms p label s = cap_line (packet_line dir ms p label) s"

definition cap_note :: "string \<Rightarrow> cli \<Rightarrow> cli" where
  "cap_note text s = cap_line (''# '' @ text) s"

definition cap_close :: "cli \<Rightarrow> cli" where
  "cap_close s = (if cap_open s then s\<lparr>cap_open := False\<rparr> else s)"

section \<open>Reading a capture file\<close>

text \<open>
  What a program that re-reads the file has to do: a line that starts with a direction has four
  columns, the last of which runs to the end of the line; every other line is a comment.
\<close>

record entry =
  e_dir :: char
  e_ms :: int
  e_bytes :: bytes
  e_label :: string

definition entry_line :: "entry \<Rightarrow> string" where
  "entry_line e = packet_line (e_dir e) (e_ms e) (e_bytes e) (e_label e)"

definition column :: "string \<Rightarrow> string \<times> string" where
  "column s = (takeWhile (\<lambda>c. c \<noteq> CHR '' '') s, tl (dropWhile (\<lambda>c. c \<noteq> CHR '' '') s))"

definition read_entry :: "string \<Rightarrow> entry option" where
  "read_entry s =
    (let (d, s) = column s; (ms, s) = column s; (hex, label) = column s in
     if d \<noteq> ''>'' \<and> d \<noteq> ''<'' then None
     else (case (read_d ms, read_hexcompact hex) of
             (Some m, Some bs) \<Rightarrow> Some \<lparr>e_dir = hd d, e_ms = m, e_bytes = bs, e_label = label\<rparr>
           | _ \<Rightarrow> None))"

definition transcript :: "string \<Rightarrow> entry list" where
  "transcript text = List.map_filter read_entry (lines_of text)"

definition dir_ok :: "entry \<Rightarrow> bool" where
  "dir_ok e \<longleftrightarrow> e_dir e = CHR ''>'' \<or> e_dir e = CHR ''<''"

lemma column_append: "CHR '' '' \<notin> set s \<Longrightarrow> column (s @ CHR '' '' # t) = (s, t)"
proof -
  assume "CHR '' '' \<notin> set s"
  then have "\<And>c. c \<in> set s \<Longrightarrow> c \<noteq> CHR '' ''" by auto
  then show ?thesis by (simp add: column_def takeWhile_append2 dropWhile_append2)
qed

lemma fmt_d_no_blank: "CHR '' '' \<notin> set (fmt_d i)" "newline \<notin> set (fmt_d i)"
  using fmt_d_set [of "CHR '' ''" i] fmt_d_set [of newline i]
  by (auto simp: isdigit_c_def less_eq_char_def newline_def)

lemma hex_digit_lower_plain:
  assumes "n < 16" shows "hex_digit_lower n \<notin> {CHR '' '', newline}"
proof -
  have "list_all (\<lambda>n. hex_digit_lower n \<notin> {CHR '' '', newline}) [0..<16]" by code_simp
  with assms show ?thesis by (auto simp: list_all_iff)
qed

lemma hexcompact_plain: "CHR '' '' \<notin> set (hexcompact bs)" "newline \<notin> set (hexcompact bs)"
proof -
  have "unat b div 16 < 16" for b :: u8
  proof -
    have "unat b < 256" using unsigned_less [of b] by simp
    then show ?thesis by (simp add: less_mult_imp_div_less)
  qed
  then have "set (fmt_02x b) \<inter> {CHR '' '', newline} = {}" for b :: u8
    using hex_digit_lower_plain [of "unat b div 16"] hex_digit_lower_plain [of "unat b mod 16"]
    by (auto simp: fmt_02x_def)
  then have "set (hexcompact bs) \<inter> {CHR '' '', newline} = {}"
    by (induction bs) (auto simp: disjoint_iff)
  then show "CHR '' '' \<notin> set (hexcompact bs)" "newline \<notin> set (hexcompact bs)" by auto
qed

lemma read_entry_line: "dir_ok e \<Longrightarrow> read_entry (entry_line e) = Some e"
proof -
  assume d: "dir_ok e"
  then have "CHR '' '' \<notin> set [e_dir e]" by (auto simp: dir_ok_def)
  from column_append [OF this] column_append [OF fmt_d_no_blank(1)] column_append [OF hexcompact_plain(1)]
  show ?thesis
    using d compact.decode_encode
    by (cases e) (auto simp: read_entry_def entry_line_def packet_line_def Let_def read_fmt_d dir_ok_def)
qed

interpretation capture_line: codec entry_line read_entry dir_ok
  by unfold_locales (rule read_entry_line)

lemma read_entry_comment: "read_entry (CHR ''#'' # t) = None"
proof -
  have "fst (column (CHR ''#'' # t)) = CHR ''#'' # takeWhile (\<lambda>c. c \<noteq> CHR '' '') t"
    by (simp add: column_def)
  then show ?thesis by (simp add: read_entry_def Let_def case_prod_unfold)
qed

section \<open>What the output calls add to the file\<close>

definition readable :: "cli \<Rightarrow> bool" where
  "readable s \<longleftrightarrow> (\<exists>ls. cap_text s = unlines ls \<and> list_all line_ok ls)"

text \<open>The packets of a capture, in one direction.\<close>

definition entries :: "char \<Rightarrow> cli \<Rightarrow> entry list" where
  "entries dir s = filter (\<lambda>e. e_dir e = dir) (transcript (cap_text s))"

lemma line_ok_simps [simp]:
  "line_ok []" "line_ok (c # l) \<longleftrightarrow> c \<noteq> newline \<and> line_ok l" "line_ok (k @ l) \<longleftrightarrow> line_ok k \<and> line_ok l"
  by (auto simp: line_ok_def)

lemma blank_not_newline [simp]: "CHR '' '' \<noteq> newline" "CHR ''#'' \<noteq> newline" "CHR ''>'' \<noteq> newline" "CHR ''<'' \<noteq> newline"
  by (simp_all add: newline_def)

lemma line_ok_columns [simp]: "line_ok (fmt_d i)" "line_ok (hexcompact bs)"
  using fmt_d_no_blank(2) hexcompact_plain(2) by (simp_all add: line_ok_def)

lemma line_ok_entry: "dir_ok e \<Longrightarrow> line_ok (entry_line e) \<longleftrightarrow> line_ok (e_label e)"
  by (auto simp: entry_line_def packet_line_def dir_ok_def newline_def)

lemma cap_line_sels [simp]:
  "cap_open (cap_line l s) = cap_open s" "c_out (cap_line l s) = c_out s" "sent_count (cap_line l s) = sent_count s"
  "cap_path (cap_line l s) = cap_path s" "w_trace (cap_line l s) = w_trace s" "w_ix (cap_line l s) = w_ix s"
  "is_open (cap_line l s) = is_open s" "sock_fd (cap_line l s) = sock_fd s" "s_phase (cap_line l s) = s_phase s"
  "s_last_battery (cap_line l s) = s_last_battery s" "s_started (cap_line l s) = s_started s"
  "s_cfg (cap_line l s) = s_cfg s"
  "\<not> cap_open s \<Longrightarrow> cap_line l s = s"
  by (simp_all add: cap_line_def is_open_def)

lemma transcript_snoc:
  assumes "readable s" "cap_open s" "line_ok l"
  shows "readable (cap_line l s)"
    and "transcript (cap_text (cap_line l s)) =
         transcript (cap_text s) @ (case read_entry l of None \<Rightarrow> [] | Some e \<Rightarrow> [e])"
proof -
  from assms(1) obtain ls where ls: "cap_text s = unlines ls" "list_all line_ok ls"
    unfolding readable_def by blast
  have t: "cap_text (cap_line l s) = unlines (ls @ [l])" using ls(1) assms(2) by (simp add: cap_line_def)
  have o': "list_all line_ok (ls @ [l])" using ls(2) assms(3) by simp
  from t o' show "readable (cap_line l s)" unfolding readable_def by blast
  show "transcript (cap_text (cap_line l s)) =
         transcript (cap_text s) @ (case read_entry l of None \<Rightarrow> [] | Some e \<Rightarrow> [e])"
    unfolding transcript_def t lines_of_unlines [OF o'] ls(1) lines_of_unlines [OF ls(2)]
    by (simp add: List.map_filter_def split: option.split)
qed

lemma readable_line: "readable s \<Longrightarrow> line_ok l \<Longrightarrow> readable (cap_line l s)"
  by (cases "cap_open s") (simp_all add: transcript_snoc(1))

lemma note_entries:
  assumes "readable s" "line_ok t"
  shows "readable (cap_note t s)" "transcript (cap_text (cap_note t s)) = transcript (cap_text s)"
proof -
  have l: "line_ok (''# '' @ t)" using assms(2) by simp
  show "readable (cap_note t s)" using readable_line [OF assms(1) l] by (simp add: cap_note_def)
  show "transcript (cap_text (cap_note t s)) = transcript (cap_text s)"
    using transcript_snoc(2) [OF assms(1) _ l] read_entry_comment
    by (cases "cap_open s") (simp_all add: cap_note_def)
qed

lemma packet_entries:
  assumes "readable s" "cap_open s" "dir_ok e" "line_ok (e_label e)"
  defines "s1 \<equiv> cap_packet (e_dir e) (e_ms e) (e_bytes e) (e_label e) s"
  shows "readable s1" "transcript (cap_text s1) = transcript (cap_text s) @ [e]"
  using transcript_snoc [OF assms(1,2)] line_ok_entry [OF assms(3)] assms(4) read_entry_line [OF assms(3)]
  by (simp_all add: s1_def cap_packet_def entry_line_def [symmetric])

lemma line_ok_fmt_02d [simp]: "line_ok (fmt_02d n)"
proof -
  have "line_ok (fmt_u n)" using line_ok_columns(1) [of "int n"] by (simp add: fmt_d_def)
  then show ?thesis by (auto simp: fmt_02d_def pad_left_def line_ok_def newline_def)
qed

lemma line_ok_names [simp]: "line_ok (caps_name c)" "line_ok (notify_name n)" "line_ok (seq_name q)"
  by (cases c, simp_all add: newline_def) (cases n, simp_all add: newline_def, simp add: seq_name_def newline_def)

text \<open>The header is five comments.\<close>

definition header_notes :: "tm \<Rightarrow> string \<Rightarrow> caps \<Rightarrow> notify \<Rightarrow> seq \<Rightarrow> string list" where
  "header_notes t mac c n q =
     [''airprobe capture v1'', ''started '' @ iso_time t, ''mac '' @ mac,
      ''caps '' @ caps_name c @ '' notify '' @ notify_name n @ '' sequence '' @ seq_name q,
      ''columns: direction elapsed_ms hex label'']"

lemma fold_notes:
  "list_all line_ok ts \<Longrightarrow> readable s \<Longrightarrow>
   readable (fold cap_note ts s) \<and> transcript (cap_text (fold cap_note ts s)) = transcript (cap_text s)"
  by (induction ts arbitrary: s) (simp_all add: note_entries)

lemma cap_header_notes:
  "cap_header t mac c n q s = (if cap_open s then fold cap_note (header_notes t mac c n q) s else s)"
  by (simp add: cap_header_def header_notes_def cap_note_def)

lemma header_entries:
  assumes "readable s" "line_ok mac"
  shows "readable (cap_header t mac c n q s)" "transcript (cap_text (cap_header t mac c n q s)) = transcript (cap_text s)"
proof -
  have "list_all line_ok (header_notes t mac c n q)"
    using assms(2) by (simp add: header_notes_def newline_def iso_time_def)
  from fold_notes [OF this assms(1)] assms(1)
  show "readable (cap_header t mac c n q s)"
    "transcript (cap_text (cap_header t mac c n q s)) = transcript (cap_text s)"
    by (simp_all add: cap_header_notes)
qed

end
