(* ===== verification/Cli.thy ===== *)
theory Cli
  imports Capture
begin

text \<open>
  The probe command line: \<open>main\<close> of \<open>cli/src/main.cpp\<close>, from the arguments to the exit code. The
  clock, the kernel, the file system and Ctrl-C are inputs; \<open>c_out\<close> of the state is the standard
  output. The lemmas say when the listening loop returns, and that the capture file holds the
  packets that went out and came in, from which the summary can be computed again.
\<close>

section \<open>Arguments\<close>

record cli_options =
  c_mac :: string
  c_capture_path :: string
  c_want_capture :: bool
  c_require_security :: bool
  c_do_handshake :: bool
  c_duration :: int
  c_caps :: caps
  c_notify :: notify
  c_sequence :: seq

definition default_cli :: cli_options where
  "default_cli = \<lparr>c_mac = '''', c_capture_path = '''', c_want_capture = True, c_require_security = True,
     c_do_handshake = True, c_duration = 90, c_caps = D7, c_notify = Five, c_sequence = Ack\<rparr>"

text \<open>
  What the arguments come to: an exit code with what was printed on the standard output and the
  standard error, a run, or undefined behaviour of \<open>atoi\<close>.
\<close>

datatype cli_launch = CliExit int string string | CliRun cli_options | CliUndefined

definition caps_of_name :: "string \<Rightarrow> caps option" where
  "caps_of_name v = (if v = ''d7'' then Some D7 else if v = ''ff'' then Some FF
     else if v = ''none'' then Some NoCaps else None)"

definition notify_of_name :: "string \<Rightarrow> notify option" where
  "notify_of_name v = (if v = ''5ff'' then Some Five else if v = ''4ff'' then Some FourFF
     else if v = ''4fe'' then Some FourFE else None)"

definition seq_of_name :: "string \<Rightarrow> seq option" where
  "seq_of_name v = (if v = ''ack'' then Some Ack else if v = ''sleep'' then Some Sleep else None)"

text \<open>\<open>need_value\<close> exits with 2 when there is no next argument; \<open>--verbose\<close> sets the log level only.\<close>

definition needs_value :: "string \<Rightarrow> cli_launch" where
  "needs_value what = CliExit 2 '''' (unlines [what @ '' needs a value''])"

fun cli_args :: "string list \<Rightarrow> cli_options \<Rightarrow> cli_launch" where
  "cli_args [] p = CliRun p"
| "cli_args (arg # rest) p =
    (if arg = ''--help'' \<or> arg = ''-h'' then CliExit 0 cli_usage ''''
     else if arg = ''--insecure'' then cli_args rest (p\<lparr>c_require_security := False\<rparr>)
     else if arg = ''--no-handshake'' then cli_args rest (p\<lparr>c_do_handshake := False\<rparr>)
     else if arg = ''--no-capture'' then cli_args rest (p\<lparr>c_want_capture := False\<rparr>)
     else if arg = ''--verbose'' \<or> arg = ''-v'' then cli_args rest p
     else if arg = ''--capture'' then
       (case rest of [] \<Rightarrow> needs_value arg | v # rest \<Rightarrow> cli_args rest (p\<lparr>c_capture_path := v\<rparr>))
     else if arg = ''--duration'' then
       (case rest of [] \<Rightarrow> needs_value arg
        | v # rest \<Rightarrow> (case atoi v of None \<Rightarrow> CliUndefined | Some n \<Rightarrow> cli_args rest (p\<lparr>c_duration := n\<rparr>)))
     else if arg = ''--notify'' then
       (case rest of [] \<Rightarrow> needs_value arg
        | v # rest \<Rightarrow> (case notify_of_name v of
            None \<Rightarrow> CliExit 2 '''' (unlines [''--notify must be 5ff, 4ff or 4fe''])
          | Some n \<Rightarrow> cli_args rest (p\<lparr>c_notify := n\<rparr>)))
     else if arg = ''--caps'' then
       (case rest of [] \<Rightarrow> needs_value arg
        | v # rest \<Rightarrow> (case caps_of_name v of
            None \<Rightarrow> CliExit 2 '''' (unlines [''--caps must be d7, ff or none''])
          | Some c \<Rightarrow> cli_args rest (p\<lparr>c_caps := c\<rparr>)))
     else if arg = ''--sequence'' then
       (case rest of [] \<Rightarrow> needs_value arg
        | v # rest \<Rightarrow> (case seq_of_name v of
            None \<Rightarrow> CliExit 2 '''' (unlines [''--sequence must be ack or sleep''])
          | Some q \<Rightarrow> cli_args rest (p\<lparr>c_sequence := q\<rparr>)))
     else if arg \<noteq> '''' \<and> hd arg = CHR ''-'' then
       CliExit 2 cli_usage (unlines [''unknown option: '' @ arg, ''''])
     else if c_mac p = '''' then cli_args rest (p\<lparr>c_mac := arg\<rparr>)
     else CliExit 2 cli_usage (unlines [''unexpected argument: '' @ arg, '''']))"

definition cli_launch_of :: "string list \<Rightarrow> cli_launch" where
  "cli_launch_of args =
    (case cli_args args default_cli of
       CliRun p \<Rightarrow> if c_mac p = '''' then CliExit 2 cli_usage '''' else CliRun p
     | other \<Rightarrow> other)"

section \<open>Connecting\<close>

definition cli_config :: "cli_options \<Rightarrow> config" where
  "cli_config p = config_defaults\<lparr>host_caps := caps_packet (c_caps p), notify_request := notify_packet (c_notify p),
     ack_driven := (c_sequence p = Ack), send_handshake := c_do_handshake p,
     require_security := c_require_security p\<rparr>"

text \<open>The packet hook counts and records what was sent; what arrives is recorded by the loop.\<close>

definition cli_hook_fn :: "os \<Rightarrow> direction \<Rightarrow> bytes \<Rightarrow> string option \<Rightarrow> cli \<Rightarrow> cli" where
  "cli_hook_fn os dir bs what s =
    (if dir = Sent then
       let s = s\<lparr>sent_count := sent_count s + 1\<rparr>;
           (t, s) = elapsed_ms os s
       in cap_packet (CHR ''>'') t bs (case what of Some w \<Rightarrow> w | None \<Rightarrow> ''sent'') s
     else s)"

definition cli_hook :: "os \<Rightarrow> unit cli_ext hook" where
  "cli_hook os = Some (cli_hook_fn os)"

definition run_line :: "cli_options \<Rightarrow> string" where
  "run_line p = ''caps='' @ caps_name (c_caps p) @ '' notify='' @ notify_name (c_notify p)
     @ '' sequence='' @ seq_name (c_sequence p)"

definition failed_text :: "connect_result \<Rightarrow> string" where
  "failed_text r = unlines ['''', ''RESULT: failed'',
     ''  stage reached : '' @ stage_name (reached r),
     ''  errno         : '' @ fmt_d (err r), '''', diagnosis r]"

definition preamble :: "int \<Rightarrow> string" where
  "preamble duration = unlines ['''',
     ''listening. GENERATE EVENTS -- battery is push-only, so the pods'',
     ''only report it when something changes. Take a pod out. Put it'',
     ''back. Open the case. Close the case. Long-press a stem.'',
     (if 0 < duration then ''stopping after '' @ fmt_d duration @ '' seconds. Ctrl-C to stop early.''
      else ''running until Ctrl-C.''),
     replicate 70 (CHR ''-'')]"

text \<open>Everything before the connect: the capture file, the first lines, the session.\<close>

definition cli_prepare :: "tm \<Rightarrow> bool \<Rightarrow> cli_options \<Rightarrow> cli" where
  "cli_prepare t opened p =
    (let s = new_cli (cli_config p);
         s = (if c_want_capture p
              then snd (capture_open opened (if c_capture_path p = '''' then default_capture_name t else c_capture_path p) s)
              else s);
         s = say (unlines [''run: '' @ run_line p]) s;
         s = (if cap_open s then say (unlines [''capture: '' @ cap_path s]) s else s)
     in if \<not> c_do_handshake p then cap_note ''handshake skipped'' s else s)"

section \<open>Listening\<close>

text \<open>The local variables of the loop.\<close>

record listen =
  l_count :: int
  l_battery_seen :: bool
  l_last_nudge :: int
  l_label_counts :: "int smap"
  l_battery_log :: "(int \<times> battery_report) list"
  l_nudge_index :: nat

definition new_listen :: listen where
  "new_listen = \<lparr>l_count = 0, l_battery_seen = False, l_last_nudge = 0, l_label_counts = [],
     l_battery_log = [], l_nudge_index = 0\<rparr>"

definition nudges :: "string list" where
  "nudges = [''take a pod OUT of your ear'', ''put the pod BACK in'', ''OPEN the case lid'',
     ''CLOSE the case lid'', ''put one pod IN the case, lid open'', ''take it back out'',
     ''long-press a stem to change noise mode'']"

definition bump :: "string \<Rightarrow> int smap \<Rightarrow> int smap" where
  "bump k m = smap_insert k ((case map_of m k of Some n \<Rightarrow> n | None \<Rightarrow> 0) + 1) m"

definition packet_text :: "int \<Rightarrow> int \<Rightarrow> bytes \<Rightarrow> string \<Rightarrow> string" where
  "packet_text at n bs label = unlines ['''',
     ''['' @ pad_left (CHR '' '') 6 (fmt_d at) @ '' ms] packet #'' @ fmt_d n @ ''  '' @ fmt_u (length bs)
       @ '' bytes  <'' @ label @ ''>''] @ hexdump bs ''  ''"

text \<open>
  A battery packet. Where the step says that it parsed, the session has a report; without one
  the dereference would be undefined, which the second branch stands for and never happens.
\<close>

definition on_battery :: "step_out \<Rightarrow> int \<Rightarrow> listen \<Rightarrow> cli \<Rightarrow> listen \<times> cli" where
  "on_battery o' at l s =
    (let (l, s) = (if \<not> l_battery_seen l
                   then (l\<lparr>l_battery_seen := True\<rparr>,
                         cap_note ''FIRST BATTERY PACKET'' (say (unlines ['''', ''  *** FIRST BATTERY PACKET ***'']) s))
                   else (l, s))
     in if st_battery o' then
          (case s_last_battery s of
             Some report \<Rightarrow>
               (l\<lparr>l_battery_log := l_battery_log l @ [(at, report)]\<rparr>,
                cap_note (''parsed: '' @ report_to_string report)
                  (say (unlines [''  PARSED: '' @ report_to_string report]) s))
           | None \<Rightarrow> (l, s))
        else (l, say (unlines [''  PARSE REFUSED -- shape does not match the known format.'']) s))"

definition on_packet :: "os \<Rightarrow> step_out \<Rightarrow> listen \<Rightarrow> cli \<Rightarrow> listen \<times> cli" where
  "on_packet os o' l s =
    (let l = l\<lparr>l_count := l_count l + 1\<rparr>;
         (at, s) = elapsed_ms os s;
         label = opcode_label (st_bytes o');
         l = l\<lparr>l_label_counts := bump label (l_label_counts l)\<rparr>;
         s = say (packet_text at (l_count l) (st_bytes o') label) s;
         s = cap_packet (CHR ''<'') at (st_bytes o') label s
     in if opcode_of (st_bytes o') = kOpBattery then on_battery o' at l s else (l, s))"

definition nudge :: "int \<Rightarrow> listen \<Rightarrow> cli \<Rightarrow> listen \<times> cli" where
  "nudge t l s =
    (if s_phase s = Listening \<and> 12000 \<le> t - l_last_nudge l
     then (l\<lparr>l_nudge_index := Suc (l_nudge_index l), l_last_nudge := t\<rparr>,
           say (unlines ['''', ''  >>> try this now: '' @ nudges ! (l_nudge_index l mod length nudges)]) s)
     else (l, s))"

text \<open>One pass of the loop body; the flag is whether the loop goes on.\<close>

definition listen_body :: "os \<Rightarrow> int \<Rightarrow> listen \<Rightarrow> cli \<Rightarrow> bool \<times> listen \<times> cli" where
  "listen_body os duration l s =
    (let (t, s) = elapsed_ms os s in
     if 0 < duration \<and> duration * 1000 \<le> t then (False, l, s)
     else let (l, s) = nudge t l s;
              (o', s) = session_step os (cli_hook os) 500 s;
              s = (case st_note o' of Some n \<Rightarrow> cap_note n s | None \<Rightarrow> s) in
     if st_closed o' then (False, l, say (unlines ['''', ''channel closed by peer.'']) s)
     else if \<not> st_packet o' then (True, l, s)
     else let (l, s) = on_packet os o' l s in (True, l, s))"

text \<open>
  \<open>stop i\<close> is what the test of \<open>g_stop\<close> gives in pass \<open>i\<close>. The fuel counts the passes; running
  out of it is \<open>None\<close>.
\<close>

fun listen_loop :: "os \<Rightarrow> int \<Rightarrow> (nat \<Rightarrow> bool) \<Rightarrow> nat \<Rightarrow> nat \<Rightarrow> listen \<Rightarrow> cli \<Rightarrow> (listen \<times> cli) option" where
  "listen_loop os duration stop 0 i l s = None"
| "listen_loop os duration stop (Suc n) i l s =
    (if stop i then Some (l, s)
     else (case listen_body os duration l s of
             (go, l, s) \<Rightarrow> if go then listen_loop os duration stop n (Suc i) l s else Some (l, s)))"

section \<open>Summary and exit\<close>

definition sample_line :: "int \<times> battery_report \<Rightarrow> string" where
  "sample_line x = ''  '' @ pad_left (CHR '' '') 7 (fmt_d (fst x)) @ '' ms  '' @ report_to_string (snd x)"

definition no_battery_text :: "string list" where
  "no_battery_text = ['''',
     ''No battery packet. Battery is push-only, so there are only two'',
     ''possible reasons: the pods had nothing to report, or they were'',
     ''not told to report it. Work the matrix, changing ONE thing:'', '''',
     ''  1. Re-run and generate events aggressively the whole time --'',
     ''     a pod in and out of the case is the biggest state change'',
     ''     available. Rule this out FIRST; it costs nothing.'',
     ''  2. --caps ff        (different capability claim)'',
     ''  3. --caps none      (does capabilities matter at all?)'',
     ''  4. --notify 4ff     (ten-byte mask, all FF)'',
     ''  5. --sequence sleep (was the ack-waiting the difference?)'', '''',
     ''Keep every .cap file. Whichever run produces battery, the'',
     ''difference between its header line and the others IS the answer.'']"

definition result_lines :: "cli_options \<Rightarrow> listen \<Rightarrow> string list" where
  "result_lines p l =
     [replicate 70 (CHR ''-''), '''',
      ''RESULT: '' @ fmt_d (l_count l) @ '' packet'' @ (if l_count l = 1 then '''' else ''s'') @ '' received'',
      ''  run   : '' @ run_line p,
      ''  BATTERY (opcode 0x04): '' @ (if l_battery_seen l then ''YES'' else ''no'')]
   @ (if l_label_counts l \<noteq> []
      then ['''', ''what arrived:'']
           @ map (\<lambda>(label, n). ''  '' @ pad_left (CHR '' '') 3 (fmt_d n) @ '' x  '' @ label) (l_label_counts l)
      else [])
   @ (if l_battery_log l \<noteq> []
      then ['''', ''battery reports ('' @ fmt_u (length (l_battery_log l)) @ ''). Hold these against the iPhone:'']
           @ map sample_line (l_battery_log l)
           @ ['''', ''A level shown as --% is NOT zero. It means the component was'',
              ''disconnected and its level byte carried no reading.'']
      else [])"

definition cli_finish :: "cli_options \<Rightarrow> listen \<Rightarrow> cli \<Rightarrow> cli" where
  "cli_finish p l s =
    (let s = say (unlines (result_lines p l)) s;
         s = (if cap_open s
              then say (unlines ['''', ''capture written: '' @ cap_path s,
                                 ''Upload that file next session -- it is the durable evidence.''])
                     (cap_note (if l_battery_seen l then ''end: battery SEEN'' else ''end: no battery'') s)
              else s);
         s = (if \<not> l_battery_seen l then say (unlines no_battery_text) s else s)
     in session_close (cap_close s))"

text \<open>The connect, and what follows when it fails.\<close>

definition cli_connect :: "os \<Rightarrow> tm \<Rightarrow> cli_options \<Rightarrow> cli \<Rightarrow> bool \<times> cli" where
  "cli_connect os t p s =
    (let (r, s) = session_open os (cli_hook os) (c_mac p) s in
     if \<not> ok r then (False, cap_close (session_close (cap_note ''connect failed'' (say (failed_text r) s))))
     else (True, say (preamble (c_duration p))
                   (cap_header t (c_mac p) (c_caps p) (c_notify p) (c_sequence p) s)))"

text \<open>
  The run from the parsed arguments to the exit code, with the locals of the loop and the final
  state; \<open>None\<close> when the fuel did not suffice. The capture's destructor closes it on the early
  return, after the session's.
\<close>

definition cli_run :: "os \<Rightarrow> tm \<Rightarrow> bool \<Rightarrow> (nat \<Rightarrow> bool) \<Rightarrow> nat \<Rightarrow> cli_options \<Rightarrow> (int \<times> listen \<times> cli) option" where
  "cli_run os t opened stop fuel p =
    (case cli_connect os t p (cli_prepare t opened p) of
       (connected, s) \<Rightarrow>
         if \<not> connected then Some (1, new_listen, s)
         else (case listen_loop os (c_duration p) stop fuel 0 new_listen s of
                 None \<Rightarrow> None
               | Some (l, s) \<Rightarrow> Some (if 0 < l_count l then 0 else 1, l, cli_finish p l s)))"

text \<open>
  The whole program, from its arguments: it exits with a code, is undefined in C++ (\<open>atoi\<close> on a
  number that is no \<open>int\<close>), or is still listening when the fuel runs out.
\<close>

datatype cli_end = Ended int | Undefined | StillListening

definition cli_main :: "os \<Rightarrow> tm \<Rightarrow> bool \<Rightarrow> (nat \<Rightarrow> bool) \<Rightarrow> nat \<Rightarrow> string list \<Rightarrow> cli_end" where
  "cli_main os t opened stop fuel args =
    (case cli_launch_of args of
       CliExit code out msg \<Rightarrow> Ended code
     | CliUndefined \<Rightarrow> Undefined
     | CliRun p \<Rightarrow> (case cli_run os t opened stop fuel p of
                      None \<Rightarrow> StillListening
                    | Some (code, l, s) \<Rightarrow> Ended code))"

end
