(* ===== verification/Cli_Runs.thy ===== *)
theory Cli_Runs
  imports Cli
begin

text \<open>
  What the probe command line guarantees: the loop returns when it is stopped or its time is up,
  the capture file lists exactly the packets the kernel took and the packets the loop saw, and the
  summary and the exit code follow from the file.
\<close>

section \<open>The hook of the command line\<close>

lemma cli_sels [simp]:
  fixes s :: cli
  shows "cap_text (tick_ix s) = cap_text s" "cap_open (tick_ix s) = cap_open s"
    "cap_text (log_ev e s) = cap_text s" "cap_open (log_ev e s) = cap_open s"
    "cap_text (sock_close s) = cap_text s" "cap_open (sock_close s) = cap_open s"
    "cap_text (snd (elapsed_ms os s)) = cap_text s" "cap_open (snd (elapsed_ms os s)) = cap_open s"
    "cap_text (own_fields t s) = cap_text s" "cap_open (own_fields t s) = cap_open s"
    "cap_text (say x s) = cap_text s" "cap_open (say x s) = cap_open s"
  by (simp_all add: tick_ix_def log_ev_def sock_close_def elapsed_ms_def now_def own_fields_def say_def)

lemma say_sels [simp]:
  "w_trace (say x s) = w_trace s" "w_ix (say x s) = w_ix s" "is_open (say x s) = is_open s"
  "s_phase (say x s) = s_phase s" "s_last_battery (say x s) = s_last_battery s"
  "s_started (say x s) = s_started s" "s_cfg (say x s) = s_cfg s" "since k (say x s) = since k s"
  by (simp_all add: say_def is_open_def since_def)

lemma cli_socket_sels [simp]:
  fixes s :: cli
  shows "cap_text (snd (connect_to os mac sec s)) = cap_text s" "cap_open (snd (connect_to os mac sec s)) = cap_open s"
    "cap_text (snd (send_packet os bs s)) = cap_text s" "cap_open (snd (send_packet os bs s)) = cap_open s"
    "cap_text (snd (snd (read_packet os tmo out s))) = cap_text s"
    "cap_open (snd (snd (read_packet os tmo out s))) = cap_open s"
  by (auto simp: connect_to_def send_packet_def read_packet_def Let_def case_prod_unfold split: sum.split)

lemma cli_hook_frame:
  "\<exists>i m. cli_hook_fn os d bs what s = s\<lparr>w_ix := i, session.more := m\<rparr>"
proof -
  have "cli_hook_fn os d bs what s = s\<lparr>w_ix := w_ix (cli_hook_fn os d bs what s),
      session.more := session.more (cli_hook_fn os d bs what s)\<rparr>"
    by (cases s) (auto simp: cli_hook_fn_def cap_packet_def cap_line_def elapsed_ms_def now_def tick_ix_def Let_def)
  then show ?thesis by blast
qed

interpretation capture_hook: packet_hook "cli_hook os" for os
  by unfold_locales (auto simp: cli_hook_def cli_hook_frame)

lemma cli_call_hook:
  "call_hook (cli_hook os) Sent bs (Some what) s =
     cap_packet (CHR ''>'') (fst (elapsed_ms os s)) bs what
       (snd (elapsed_ms os (s\<lparr>sent_count := sent_count s + 1\<rparr>)))"
  "call_hook (cli_hook os) Received bs w s = s"
  by (simp_all add: call_hook_def cli_hook_def cli_hook_fn_def elapsed_ms_def now_def case_prod_unfold Let_def)

section \<open>No line of a capture is broken\<close>

lemma line_ok_take: "line_ok l \<Longrightarrow> line_ok (take n l)"
  by (auto simp: line_ok_def dest: in_set_takeD)

lemma line_ok_fmt_u [simp]: "line_ok (fmt_u n)"
  using line_ok_columns(1) [of "int n"] by (simp add: fmt_d_def)

lemma hex_upper_ok: "n < 16 \<Longrightarrow> hex_digit_upper n \<noteq> newline"
proof -
  have "list_all (\<lambda>n. hex_digit_upper n \<noteq> newline) [0..<16]" by code_simp
  then show "n < 16 \<Longrightarrow> hex_digit_upper n \<noteq> newline" by (auto simp: list_all_iff)
qed

lemma line_ok_hex [simp]: "line_ok (fmt_02X b)" "line_ok (fmt_04X v)"
proof -
  have "unat b < 256" using unsigned_less [of b] by simp
  then show "line_ok (fmt_02X b)" by (simp add: fmt_02X_def hex_upper_ok less_mult_imp_div_less)
  have "unat v < 65536" using unsigned_less [of v] by simp
  then show "line_ok (fmt_04X v)" by (simp add: fmt_04X_def hex_upper_ok less_mult_imp_div_less)
qed

lemma line_ok_tables:
  "opcode_name op = Some t \<Longrightarrow> line_ok t" "control_name i = Some t \<Longrightarrow> line_ok t"
proof -
  have "list_all (\<lambda>(k, t). line_ok t) opcode_table" "list_all (\<lambda>(k, t). line_ok t) control_table"
    by code_simp+
  then show "opcode_name op = Some t \<Longrightarrow> line_ok t" "control_name i = Some t \<Longrightarrow> line_ok t"
    by (auto simp: opcode_name_def control_name_def list_all_iff dest!: map_of_SomeD)
qed

lemma line_ok_texts:
  "line_ok ''handshake-ack''" "line_ok ''non-standard-header''" "line_ok ''truncated''"
  "line_ok ''control (truncated)''" "line_ok ''control: ''" "line_ok '' = 0x''" "line_ok ''control: id 0x''"
  "line_ok '' ? = 0x''" "line_ok ''*** BATTERY *** (claims ''" "line_ok '' component''" "line_ok ''s''"
  "line_ok '', ''" "line_ok '' bytes)''" "line_ok ''opcode 0x''" "line_ok '' ?''"
  by code_simp+

lemma line_ok_if: "line_ok a \<Longrightarrow> line_ok b \<Longrightarrow> line_ok (if c then a else b)"
  by simp

lemma line_ok_option: "line_ok a \<Longrightarrow> (\<And>x. v = Some x \<Longrightarrow> line_ok (f x)) \<Longrightarrow> line_ok (case v of None \<Rightarrow> a | Some x \<Rightarrow> f x)"
  by (cases v) simp_all

lemma line_ok_append: "line_ok k \<Longrightarrow> line_ok l \<Longrightarrow> line_ok (k @ l)"
  by simp

lemma line_ok_label [simp]: "line_ok (opcode_label p)"
  unfolding opcode_label_def Let_def snprintf_c_def
  by (intro line_ok_if line_ok_option line_ok_take line_ok_append line_ok_texts line_ok_hex line_ok_fmt_u
      line_ok_simps(1); erule line_ok_tables)

lemma line_ok_component_names [simp]: "line_ok (component_name c)" "line_ok (status_name st)"
proof -
  show "line_ok (component_name c)" by (cases c) (simp_all add: newline_def)
  show "line_ok (status_name st)" by (cases st) (simp_all add: newline_def)
qed

lemma line_ok_component_texts:
  "line_ok '' ''" "line_ok ''% (''" "line_ok '')''" "line_ok '' --% (''" "line_ok '', raw 0x''"
  "line_ok '' [FRAMING ANOMALY]''"
  by code_simp+

lemma line_ok_component: "line_ok (component_to_string c)"
  by (simp add: component_to_string_text component_text_def line_ok_component_texts
      del: line_ok_simps(2) append.append_Cons split: option.split)

lemma line_ok_report [simp]: "line_ok (report_to_string r)"
proof -
  have "line_ok (concat (map (\<lambda>i. (if i \<noteq> 0 then ''   '' else '''') @ component_to_string (components r ! i)) is))" for "is"
    using line_ok_component by (induction "is") (auto simp: newline_def)
  then show ?thesis by (auto simp: report_to_string_def Let_def newline_def)
qed

section \<open>The sends in the transcript\<close>

text \<open>
  The monitored property: the capture is readable and, when open, its \<open>>\<close> lines are the packets
  the kernel took whole since trace position \<open>k\<close>. Its \<open><\<close> lines are the loop's business: for
  the session they stay \<open>R\<close>.
\<close>

definition sends_recorded :: "nat \<Rightarrow> bool \<Rightarrow> entry list \<Rightarrow> cli \<Rightarrow> bool" where
  "sends_recorded k b R s \<longleftrightarrow> readable s \<and> cap_open s = b \<and> k \<le> length (w_trace s)
     \<and> (if b then map e_bytes (entries (CHR ''>'') s) = since k s \<and> entries (CHR ''<'') s = R else True)"

lemma sends_recorded_cong:
  "cap_text s = cap_text t \<Longrightarrow> cap_open s = cap_open t \<Longrightarrow> k \<le> length (w_trace s) \<Longrightarrow> k \<le> length (w_trace t)
   \<Longrightarrow> since k s = since k t \<Longrightarrow> sends_recorded k b R s = sends_recorded k b R t"
  by (simp add: sends_recorded_def readable_def entries_def)

lemma written_quiet:
  "written [SysSleep ms] = []" "written [SysClose fd] = []"
  by simp_all

lemma written_connect:
  "\<exists>es. w_trace (snd (connect_to os mac sec s)) = w_trace s @ es \<and> written es = []"
  by (auto simp: connect_to_def Let_def case_prod_unfold)

lemma written_read:
  "\<exists>es. w_trace (snd (snd (read_packet os tmo out s))) = w_trace s @ es \<and> written es = []"
  by (auto simp: read_packet_def Let_def case_prod_unfold split: sum.split)

lemma sends_recorded_quiet:
  assumes "sends_recorded k b R s" "cap_text s' = cap_text s" "cap_open s' = cap_open s"
    and "\<exists>es. w_trace s' = w_trace s @ es \<and> written es = []"
  shows "sends_recorded k b R s'"
proof -
  obtain es where es: "w_trace s' = w_trace s @ es" "written es = []" using assms(4) by blast
  have "k \<le> length (w_trace s)" using assms(1) by (simp add: sends_recorded_def)
  then show ?thesis
    using assms(1-3) es by (subst sends_recorded_cong [of s' s]) (simp_all add: since_def)
qed

lemma entries_packet:
  assumes "readable s" "cap_open s" "line_ok label" "d = CHR ''>'' \<or> d = CHR ''<''"
  shows "entries dir (cap_packet d ms bs label s) = entries dir s
      @ (if d = dir then [\<lparr>e_dir = d, e_ms = ms, e_bytes = bs, e_label = label\<rparr>] else [])"
    and "readable (cap_packet d ms bs label s)"
  using packet_entries [OF assms(1,2), of "\<lparr>e_dir = d, e_ms = ms, e_bytes = bs, e_label = label\<rparr>"] assms(3,4)
  by (simp_all add: entries_def dir_ok_def)

lemma cap_packet_sels [simp]:
  "cap_open (cap_packet d ms bs l s) = cap_open s" "w_trace (cap_packet d ms bs l s) = w_trace s"
  "w_ix (cap_packet d ms bs l s) = w_ix s" "is_open (cap_packet d ms bs l s) = is_open s"
  "s_phase (cap_packet d ms bs l s) = s_phase s" "s_last_battery (cap_packet d ms bs l s) = s_last_battery s"
  "s_started (cap_packet d ms bs l s) = s_started s" "\<not> cap_open s \<Longrightarrow> cap_packet d ms bs l s = s"
  by (simp_all add: cap_packet_def)

lemma packet_names_ok: "what \<in> packet_names \<Longrightarrow> line_ok what"
  by (auto simp: packet_names_def newline_def)

lemma emit_recorded:
  assumes P: "sends_recorded k b R s" and w: "what \<in> packet_names"
  shows "sends_recorded k b R (snd (emit os (cli_hook os) bs what s))"
proof -
  define s1 where "s1 = snd (send_packet os bs s)"
  define s2 where "s2 = snd (elapsed_ms os (s1\<lparr>sent_count := sent_count s1 + 1\<rparr>))"
  have same: "cap_text s1 = cap_text s" "cap_open s1 = cap_open s" "cap_text s2 = cap_text s" "cap_open s2 = cap_open s"
    by (simp_all add: s1_def s2_def)
  have r: "readable s2" using P same by (simp add: sends_recorded_def readable_def)
  have k: "k \<le> length (w_trace s)" using P by (simp add: sends_recorded_def)
  have result: "snd (emit os (cli_hook os) bs what s) =
      (if bs = [] then s else if fst (send_packet os bs s)
       then cap_packet (CHR ''>'') (fst (elapsed_ms os s1)) bs what s2 else s1)"
    by (simp add: emit_def case_prod_unfold Let_def cli_call_hook s1_def s2_def)
  have sent: "fst (emit os (cli_hook os) bs what s) = (if bs = [] then True else fst (send_packet os bs s))"
    by (simp add: emit_def case_prod_unfold Let_def)
  have since: "since k (snd (emit os (cli_hook os) bs what s)) =
      since k s @ (if fst (emit os (cli_hook os) bs what s) then opt_packet bs else [])"
    by (rule capture_hook.since_emit [OF k])
  have k': "k \<le> length (w_trace (snd (emit os (cli_hook os) bs what s)))"
    by (rule capture_hook.emit_trace_le [OF k])
  have ent: "entries d s1 = entries d s" "entries d s2 = entries d s" for d using same by (simp_all add: entries_def)
  show ?thesis
    using P k' since entries_packet [OF r _ packet_names_ok [OF w], of "CHR ''>''"] same ent
    unfolding result sent sends_recorded_def
    by (auto simp: opt_packet_def readable_def split: if_splits)
qed

interpretation capture_monitor: session_monitor os "cli_hook os" "sends_recorded k b R" for os k b R
proof
  fix s t :: cli and ms mac sec what bs tmo out
  assume P: "sends_recorded k b R s"
  note quiet = sends_recorded_quiet [OF P]
  show "sends_recorded k b R (own_fields t s)" by (rule quiet) (simp_all, simp add: own_fields_def)
  show "sends_recorded k b R (tick_ix s)" by (rule quiet) simp_all
  show "sends_recorded k b R (log_ev (SysSleep ms) s)" by (rule quiet) (simp_all add: log_ev_def)
  show "sends_recorded k b R (sock_close s)" by (rule quiet) (simp_all add: sock_close_def log_ev_def)
  show "sends_recorded k b R (snd (connect_to os mac sec s))" by (rule quiet) (simp_all add: written_connect)
  show "sends_recorded k b R (snd (snd (read_packet os tmo out s)))" by (rule quiet) (simp_all add: written_read)
  show "what \<in> packet_names \<Longrightarrow> sends_recorded k b R (snd (emit os (cli_hook os) bs what s))"
    by (rule emit_recorded [OF P])
  show "sends_recorded k b R (call_hook (cli_hook os) Received bs None s)"
    using P by (simp add: cli_call_hook)
qed

section \<open>Notes and printed text leave the packets alone\<close>

lemma sends_recorded_say [simp]: "sends_recorded k b R (say x s) = sends_recorded k b R s"
  by (simp add: sends_recorded_def readable_def entries_def)

lemma sends_recorded_note:
  "sends_recorded k b R s \<Longrightarrow> line_ok t \<Longrightarrow> sends_recorded k b R (cap_note t s)"
  using note_entries [of s t]
  by (auto simp: sends_recorded_def entries_def since_def cap_note_def)

lemma sends_recorded_received:
  assumes "sends_recorded k b R s"
  shows "sends_recorded k b (R @ [\<lparr>e_dir = CHR ''<'', e_ms = ms, e_bytes = bs, e_label = opcode_label bs\<rparr>])
     (cap_packet (CHR ''<'') ms bs (opcode_label bs) s)"
  using assms entries_packet [of s "opcode_label bs" "CHR ''<''"]
  by (cases b) (simp_all add: sends_recorded_def since_def)

definition note_ok :: "step_out \<Rightarrow> bool" where
  "note_ok o' \<longleftrightarrow> pred_option line_ok (st_note o')"

lemma note_ok_simps [simp]:
  "note_ok empty_step" "note_ok (o'\<lparr>st_packet := p\<rparr>) = note_ok o'" "note_ok (o'\<lparr>st_battery := p\<rparr>) = note_ok o'"
  "note_ok (o'\<lparr>st_closed := p\<rparr>) = note_ok o'" "note_ok (o'\<lparr>st_phase_changed := p\<rparr>) = note_ok o'"
  "note_ok (o'\<lparr>st_bytes := bs\<rparr>) = note_ok o'" "note_ok (o'\<lparr>st_note := Some t\<rparr>) = line_ok t"
  "note_ok (fst (fail_closed o' s)) = note_ok o'"
  by (simp_all add: note_ok_def empty_step_def fail_closed_def)

lemma note_ok_keep: "note_ok o' \<Longrightarrow> line_ok t \<Longrightarrow> note_ok (keep_note t o')"
  by (simp add: keep_note_def)

lemma session_notes:
  "line_ok ''TIMEOUT waiting for handshake-ack''" "line_ok ''TIMEOUT waiting for features-ack (opcode 0x2B)''"
  "line_ok ''re-sending notification request (no battery yet)''"
  "line_ok ''PARSE REFUSED on an opcode 0x04 packet''" "line_ok ''channel closed by peer''"
  by code_simp+

lemma note_ok_stages:
  assumes "note_ok o'"
  shows "note_ok (fst (step_timeout os hook o' s))" "note_ok (fst (step_resend os hook o' s))"
    "note_ok (fst (step_battery os o' s))" "note_ok (fst (step_transition os hook o' s))"
  using assms session_notes note_ok_keep
  by (simp_all add: step_timeout_def step_resend_def step_battery_def step_transition_def Let_def case_prod_unfold
      del: line_ok_simps(2) split: option.split)

lemma note_ok_step: "note_ok (fst (session_step os hook tmo s))"
proof -
  have "note_ok o' \<Longrightarrow> note_ok (fst (step_read os hook tmo o' s))" for o' s
    using session_notes(5) note_ok_keep
    by (simp add: step_read_def step_received_def Let_def case_prod_unfold note_ok_stages del: line_ok_simps(2))
  then show ?thesis by (simp add: session_step_def Let_def case_prod_unfold note_ok_stages)
qed

section \<open>The summary can be computed from the transcript\<close>

text \<open>What the locals of the loop are, given the \<open><\<close> lines of the file.\<close>

definition log_of :: "entry list \<Rightarrow> (int \<times> battery_report) list" where
  "log_of es = List.map_filter (\<lambda>e. map_option (\<lambda>r. (e_ms e, r)) (parse_battery (e_bytes e))) es"

definition recv_ok :: "listen \<Rightarrow> entry list \<Rightarrow> bool" where
  "recv_ok l es \<longleftrightarrow> l_count l = int (length es)
     \<and> list_all (\<lambda>e. e_label e = opcode_label (e_bytes e)) es
     \<and> l_battery_log l = log_of es
     \<and> l_label_counts l = foldl (\<lambda>m e. bump (e_label e) m) [] es
     \<and> l_battery_seen l = list_ex (\<lambda>e. opcode_of (e_bytes e) = kOpBattery) es"

lemma log_of_snoc [simp]:
  "log_of (es @ [e]) = log_of es @ (case parse_battery (e_bytes e) of Some r \<Rightarrow> [(e_ms e, r)] | None \<Rightarrow> [])"
  by (simp add: log_of_def List.map_filter_def split: option.split)

definition run_ok :: "nat \<Rightarrow> bool \<Rightarrow> listen \<Rightarrow> cli \<Rightarrow> bool" where
  "run_ok k b l s \<longleftrightarrow> (\<exists>R. sends_recorded k b R s \<and> (b \<longrightarrow> recv_ok l R))"

lemma run_ok_session:
  assumes "run_ok k b l s" and "\<And>R. sends_recorded k b R s \<Longrightarrow> sends_recorded k b R s'"
  shows "run_ok k b l s'"
  using assms unfolding run_ok_def by blast

lemma run_ok_nudge: "run_ok k b l s \<Longrightarrow> run_ok k b (fst (nudge t l s)) (snd (nudge t l s))"
  by (auto simp: run_ok_def nudge_def recv_ok_def)

lemma on_battery_state:
  assumes "sends_recorded k b R s"
  shows "sends_recorded k b R (snd (on_battery o' at l s))"
proof -
  have n: "line_ok ''FIRST BATTERY PACKET''" "line_ok ''parsed: ''" by code_simp+
  show ?thesis
    using assms n
    by (auto simp: on_battery_def Let_def case_prod_unfold sends_recorded_note
        simp del: line_ok_simps(2) append.append_Cons split: option.split)
qed

lemma on_battery_locals:
  "s_last_battery s = Some r \<or> \<not> st_battery o' \<Longrightarrow>
   fst (on_battery o' at l s) = l\<lparr>l_battery_seen := True,
     l_battery_log := l_battery_log l @ (if st_battery o' then [(at, the (s_last_battery s))] else [])\<rparr>"
  by (auto simp: on_battery_def Let_def case_prod_unfold cap_note_def)

text \<open>A received packet adds one line and one count.\<close>

lemma run_ok_packet:
  assumes ok: "run_ok k b l s"
    and cached: "opcode_of (st_bytes o') = kOpBattery \<Longrightarrow>
      (case parse_battery (st_bytes o') of Some r \<Rightarrow> st_battery o' \<and> s_last_battery s = Some r | None \<Rightarrow> \<not> st_battery o')"
  shows "run_ok k b (fst (on_packet os o' l s)) (snd (on_packet os o' l s))"
proof -
  define bs where "bs = st_bytes o'"
  define at where "at = fst (elapsed_ms os s)"
  define l1 where "l1 = l\<lparr>l_count := l_count l + 1, l_label_counts := bump (opcode_label bs) (l_label_counts l)\<rparr>"
  define s1 where "s1 = cap_packet (CHR ''<'') at bs (opcode_label bs)
    (say (packet_text at (l_count l + 1) bs (opcode_label bs)) (snd (elapsed_ms os s)))"
  define e where "e = \<lparr>e_dir = CHR ''<'', e_ms = at, e_bytes = bs, e_label = opcode_label bs\<rparr>"
  obtain R where R: "sends_recorded k b R s" "b \<longrightarrow> recv_ok l R" using ok unfolding run_ok_def by blast
  have "sends_recorded k b R (snd (elapsed_ms os s))" by (rule capture_monitor.elapsed [OF R(1)])
  then have s1: "sends_recorded k b (R @ [e]) s1" unfolding s1_def e_def by (intro sends_recorded_received) simp
  have last: "s_last_battery s1 = s_last_battery s" by (simp add: s1_def)
  have e: "e_ms e = at" "e_bytes e = bs" "e_label e = opcode_label bs" by (simp_all add: e_def)
  have step: "on_packet os o' l s = (if opcode_of bs = kOpBattery then on_battery o' at l1 s1 else (l1, s1))"
    by (simp add: on_packet_def Let_def case_prod_unfold bs_def at_def l1_def s1_def)
  show ?thesis
  proof (cases "opcode_of bs = kOpBattery")
    case True
    then have b: "case parse_battery bs of Some r \<Rightarrow> st_battery o' \<and> s_last_battery s1 = Some r | None \<Rightarrow> \<not> st_battery o'"
      using cached last by (auto simp: bs_def split: option.splits)
    then have "fst (on_battery o' at l1 s1) = l1\<lparr>l_battery_seen := True,
        l_battery_log := l_battery_log l1 @ (case parse_battery bs of Some r \<Rightarrow> [(at, r)] | None \<Rightarrow> [])\<rparr>"
      using on_battery_locals [of s1 _ o' at l1] by (cases "parse_battery bs") auto
    then have "b \<longrightarrow> recv_ok (fst (on_battery o' at l1 s1)) (R @ [e])"
      using R(2) True e by (auto simp: recv_ok_def l1_def)
    with on_battery_state [OF s1] True step show ?thesis unfolding run_ok_def by auto
  next
    case False
    then have "parse_battery bs = None" using parse_battery_opcode [of bs] by (cases "parse_battery bs") auto
    with False have "b \<longrightarrow> recv_ok l1 (R @ [e])" using R(2) e by (auto simp: recv_ok_def l1_def)
    with s1 False step show ?thesis unfolding run_ok_def by auto
  qed
qed

section \<open>The loop\<close>

text \<open>A pass of the loop: the time is up, or the session is stepped.\<close>

lemma listen_body_cases:
  assumes "listen_body os duration l s = (go, l', s')"
  obtains (time_up) "\<not> go" "l' = l" "s' = snd (elapsed_ms os s)"
  | (stepped) l1 s1 o' s2 s3 where
      "\<not> (0 < duration \<and> duration * 1000 \<le> fst (elapsed_ms os s))"
      "nudge (fst (elapsed_ms os s)) l (snd (elapsed_ms os s)) = (l1, s1)"
      "session_step os (cli_hook os) 500 s1 = (o', s2)"
      "s3 = (case st_note o' of Some n \<Rightarrow> cap_note n s2 | None \<Rightarrow> s2)"
      "if st_closed o' then \<not> go \<and> l' = l1 \<and> s' = say (unlines ['''', ''channel closed by peer.'']) s3
       else if st_packet o' then go \<and> on_packet os o' l1 s3 = (l', s') else go \<and> l' = l1 \<and> s' = s3"
proof (cases "0 < duration \<and> duration * 1000 \<le> fst (elapsed_ms os s)")
  case True
  then show thesis using assms by (intro time_up) (simp_all add: listen_body_def Let_def case_prod_unfold)
next
  case False
  obtain t s0 where e: "elapsed_ms os s = (t, s0)" by fastforce
  obtain l1 s1 where n: "nudge (fst (elapsed_ms os s)) l (snd (elapsed_ms os s)) = (l1, s1)" by fastforce
  obtain o' s2 where o': "session_step os (cli_hook os) 500 s1 = (o', s2)" by fastforce
  define s3 where "s3 = (case st_note o' of Some n \<Rightarrow> cap_note n s2 | None \<Rightarrow> s2)"
  have f: "(0 < duration \<and> duration * 1000 \<le> t) = False" and n': "nudge t l s0 = (l1, s1)"
    using False e n by simp_all
  have "listen_body os duration l s =
      (if st_closed o' then (False, l1, say (unlines ['''', ''channel closed by peer.'']) s3)
       else if \<not> st_packet o' then (True, l1, s3)
       else (True, on_packet os o' l1 s3))"
    unfolding listen_body_def e Let_def prod.case f if_False n' o' s3_def by (simp split: prod.split)
  then have "(go, l', s') =
      (if st_closed o' then (False, l1, say (unlines ['''', ''channel closed by peer.'']) s3)
       else if \<not> st_packet o' then (True, l1, s3)
       else (True, on_packet os o' l1 s3))" unfolding assms .
  then show thesis
    by (intro stepped [OF False n o' s3_def]) (cases "st_closed o'"; cases "st_packet o'"; simp)
qed

lemma run_ok_body:
  assumes "run_ok k b l s" and "listen_body os duration l s = (go, l', s')"
  shows "run_ok k b l' s'"
proof -
  have r0: "run_ok k b l (snd (elapsed_ms os s))" by (rule run_ok_session [OF assms(1) capture_monitor.elapsed])
  from assms(2) show ?thesis
  proof (cases rule: listen_body_cases)
    case time_up
    with r0 show ?thesis by simp
  next
    case (stepped l1 s1 o' s2 s3)
    have r1: "run_ok k b l1 s1" using run_ok_nudge [OF r0, of "fst (elapsed_ms os s)"] stepped(2) by simp
    have r2: "run_ok k b l1 s2"
      using run_ok_session [OF r1 capture_monitor.step [of k b _ s1 os 500]] stepped(3) by simp
    have "note_ok o'" using note_ok_step [of os "cli_hook os" 500 s1] stepped(3) by simp
    then have r3: "run_ok k b l1 s3"
      using r2 run_ok_session [OF r2 sends_recorded_note] stepped(4) by (cases "st_note o'") (auto simp: note_ok_def)
    have last: "s_last_battery s3 = s_last_battery s2" using stepped(4) by (auto simp: cap_note_def split: option.split)
    have "battery_cached o' s1 s2" using capture_hook.session_step_cached [of os os 500 s1] stepped(3) by simp
    then have cached: "st_packet o' \<Longrightarrow> opcode_of (st_bytes o') = kOpBattery \<Longrightarrow>
        (case parse_battery (st_bytes o') of Some r \<Rightarrow> st_battery o' \<and> s_last_battery s3 = Some r | None \<Rightarrow> \<not> st_battery o')"
      using last by (auto simp: battery_cached_def split: option.splits)
    have said: "run_ok k b l1 (say x s3)" for x by (rule run_ok_session [OF r3]) simp
    show ?thesis using stepped(5) r3 said run_ok_packet [OF r3 cached, of os] by (auto split: if_splits)
  qed
qed

lemma run_ok_loop:
  "run_ok k b l s \<Longrightarrow> listen_loop os duration stop n i l s = Some (l', s') \<Longrightarrow> run_ok k b l' s'"
proof (induction n arbitrary: i l s)
  case 0
  then show ?case by simp
next
  case (Suc n)
  obtain go l1 s1 where body: "listen_body os duration l s = (go, l1, s1)" by (rule prod_cases3)
  have "run_ok k b l1 s1" by (rule run_ok_body [OF Suc.prems(1) body])
  then show ?case using Suc.prems body Suc.IH by (auto split: if_splits)
qed

text \<open>More fuel does not change the result.\<close>

lemma listen_loop_more:
  "listen_loop os duration stop n i l s = Some r \<Longrightarrow> n \<le> m \<Longrightarrow> listen_loop os duration stop m i l s = Some r"
proof (induction n arbitrary: m i l s)
  case 0
  then show ?case by simp
next
  case (Suc n)
  obtain m' where m: "m = Suc m'" "n \<le> m'" using Suc.prems(2) by (cases m) auto
  obtain go l1 s1 where body: "listen_body os duration l s = (go, l1, s1)" by (rule prod_cases3)
  show ?case using Suc.prems(1) Suc.IH [OF _ m(2)] body m(1) by (auto split: if_splits)
qed

section \<open>The loop returns\<close>

lemma w_ix_calls:
  fixes s :: cli
  shows "w_ix s \<le> w_ix (sock_close s)" "w_ix s \<le> w_ix (snd (send_packet os bs s))"
    "w_ix s \<le> w_ix (snd (snd (read_packet os tmo out s)))" "w_ix s \<le> w_ix (snd (elapsed_ms os s))"
    "w_ix s \<le> w_ix (snd (connect_to os mac sec s))"
  by (auto simp: sock_close_def send_packet_def read_packet_def elapsed_ms_def connect_to_def
      tick_ix_def log_ev_def now_def Let_def case_prod_unfold split: sum.split)

interpretation call_count: session_monitor os "cli_hook os" "\<lambda>s. n \<le> w_ix s" for os n
proof
  fix s t :: cli and ms mac sec what bs tmo out
  assume P: "n \<le> w_ix s"
  show "n \<le> w_ix (own_fields t s)" "n \<le> w_ix (tick_ix s)" "n \<le> w_ix (log_ev (SysSleep ms) s)"
    using P by (simp_all add: own_fields_def tick_ix_def log_ev_def)
  show "n \<le> w_ix (sock_close s)" "n \<le> w_ix (snd (connect_to os mac sec s))"
    "n \<le> w_ix (snd (snd (read_packet os tmo out s)))"
    using P w_ix_calls(1) [of s] w_ix_calls(5) [of s os mac sec] w_ix_calls(3) [of s os tmo out] by linarith+
  show "n \<le> w_ix (call_hook (cli_hook os) Received bs None s)" using P by (simp add: cli_call_hook)
  define s1 where "s1 = snd (send_packet os bs s)"
  have "n \<le> w_ix s1" using P w_ix_calls(2) [of s os bs] by (simp add: s1_def)
  moreover have "w_ix s1 \<le> w_ix (snd (elapsed_ms os (s1\<lparr>sent_count := sent_count s1 + 1\<rparr>)))"
    using w_ix_calls(4) [of "s1\<lparr>sent_count := sent_count s1 + 1\<rparr>" os] by simp
  ultimately show "n \<le> w_ix (snd (emit os (cli_hook os) bs what s))"
    using P by (simp add: emit_def case_prod_unfold Let_def cli_call_hook s1_def)
qed

text \<open>A session whose loop is running: open since the clock showed \<open>t0\<close>.\<close>

definition running :: "nat \<Rightarrow> int \<Rightarrow> cli \<Rightarrow> bool" where
  "running k t0 s \<longleftrightarrow> session_inv k s \<and> is_open s \<and> s_started s = t0"

lemma session_inv_cong:
  "s_phase s = s_phase t \<Longrightarrow> sock_fd s = sock_fd t \<Longrightarrow> s_cfg s = s_cfg t \<Longrightarrow> s_notify_resent s = s_notify_resent t
   \<Longrightarrow> w_trace s = w_trace t \<Longrightarrow> session_inv k s = session_inv k t"
  by (simp add: session_inv_def is_open_def since_def)

lemma running_cong:
  "s_phase s = s_phase t \<Longrightarrow> sock_fd s = sock_fd t \<Longrightarrow> s_cfg s = s_cfg t \<Longrightarrow> s_notify_resent s = s_notify_resent t
   \<Longrightarrow> w_trace s = w_trace t \<Longrightarrow> s_started s = s_started t \<Longrightarrow> running k t0 s = running k t0 t"
  using session_inv_cong [of s t k] by (simp add: running_def is_open_def)

lemma running_outputs [simp]:
  "running k t0 (say x s) = running k t0 s" "running k t0 (cap_line y s) = running k t0 s"
  "running k t0 (cap_note x s) = running k t0 s" "running k t0 (cap_packet d ms bs lab s) = running k t0 s"
  "running k t0 (snd (elapsed_ms os s)) = running k t0 s" "running k t0 (snd (nudge t l s)) = running k t0 s"
proof -
  show say: "running k t0 (say x s) = running k t0 s" for x s by (rule running_cong) (simp_all add: say_def)
  show cap: "running k t0 (cap_line l s) = running k t0 s" for l s by (rule running_cong) (simp_all add: cap_line_def)
  show "running k t0 (cap_note x s) = running k t0 s" "running k t0 (cap_packet d ms bs lab s) = running k t0 s"
    by (simp_all add: cap cap_note_def cap_packet_def)
  show "running k t0 (snd (elapsed_ms os s)) = running k t0 s" by (rule running_cong) simp_all
  show "running k t0 (snd (nudge t l s)) = running k t0 s" by (simp add: nudge_def say)
qed

lemma running_packet [simp]: "running k t0 (snd (on_packet os o' l s)) = running k t0 s"
  by (simp add: on_packet_def on_battery_def Let_def case_prod_unfold split: option.split)

lemma w_ix_outputs [simp]:
  "w_ix (cap_note x s) = w_ix s" "w_ix (snd (nudge t l s)) = w_ix s"
  "w_ix (snd (on_battery o' at l s)) = w_ix s"
  by (simp_all add: cap_note_def nudge_def on_battery_def Let_def case_prod_unfold split: option.split)

lemma w_ix_packet: "w_ix s \<le> w_ix (snd (on_packet os o' l s))"
  using w_ix_calls(4) [of s os] by (simp add: on_packet_def Let_def case_prod_unfold)

lemma running_elapsed:
  assumes "running k t0 s"
  shows "fst (elapsed_ms os s) = ms_between t0 (os_now os (w_ix s))" "w_ix (snd (elapsed_ms os s)) = Suc (w_ix s)"
proof -
  have "s_phase s \<noteq> Closed" using assms by (auto simp: running_def session_inv_def)
  then show "fst (elapsed_ms os s) = ms_between t0 (os_now os (w_ix s))"
    "w_ix (snd (elapsed_ms os s)) = Suc (w_ix s)"
    using assms by (simp_all add: elapsed_ms_def now_def running_def tick_ix_def)
qed

text \<open>One pass either ends the loop or leaves it running with the clock consulted again.\<close>

lemma body_progress:
  assumes run: "running k t0 s" and body: "listen_body os duration l s = (True, l', s')"
  shows "running k t0 s' \<and> w_ix s < w_ix s' \<and> (0 < duration \<longrightarrow> ms_between t0 (os_now os (w_ix s)) < duration * 1000)"
  using body
proof (cases rule: listen_body_cases)
  case time_up
  then show ?thesis by simp
next
  case (stepped l1 s1 o' s2 s3)
  have s1: "s1 = snd (nudge (fst (elapsed_ms os s)) l (snd (elapsed_ms os s)))" using stepped(2) by simp
  have r1: "running k t0 s1" "w_ix s1 = Suc (w_ix s)" using run running_elapsed [OF run] by (simp_all add: s1)
  have i1: "session_inv k s1" using r1(1) by (simp add: running_def)
  have w2: "Suc (w_ix s) \<le> w_ix s2" using call_count.step [of "Suc (w_ix s)" s1 os 500] r1(2) stepped(3) by simp
  have "running k t0 s2" if "\<not> st_closed o'"
    using that capture_hook.session_step_ok [OF i1, of os os 500] r1(1) stepped(3)
      capture_hook.started_step [of os os 500 s1] by (simp add: running_def)
  then have r3: "running k t0 s3" if "\<not> st_closed o'" using that stepped(4) by (simp split: option.split)
  have w3: "Suc (w_ix s) \<le> w_ix s3" using w2 stepped(4) by (simp split: option.split)
  have "running k t0 s' = running k t0 s3" if "on_packet os o' l1 s3 = (l', s')"
    by (metis that running_packet snd_conv)
  then have "running k t0 s' \<and> w_ix s3 \<le> w_ix s'"
    using stepped(5) r3 w_ix_packet [of s3 os o' l1] by (auto split: if_splits)
  then show ?thesis using w3 stepped(1) running_elapsed(1) [OF run] by auto
qed

lemma ms_between_ge:
  assumes "t0 + d * 1000000000 \<le> t" "0 < d" shows "d * 1000 \<le> ms_between t0 t"
proof -
  have nn: "0 \<le> t - t0" using assms by linarith
  then have "ms_between t0 t = (t - t0) div 1000000" by (auto simp: ms_between_def signed_divide_int_def sgn_if)
  moreover have "d * 1000 = (d * 1000000000) div 1000000" by simp
  moreover have "\<dots> \<le> (t - t0) div 1000000" using assms by (intro zdiv_mono1) simp_all
  ultimately show ?thesis by linarith
qed

lemma loop_deadline:
  assumes "running k t0 s" and "0 < duration" and "\<And>j. N \<le> j \<Longrightarrow> t0 + duration * 1000000000 \<le> os_now os j"
  shows "\<exists>r. listen_loop os duration stop (Suc (N - w_ix s)) i l s = Some r"
  using assms(1)
proof (induction "N - w_ix s" arbitrary: i l s rule: less_induct)
  case less
  obtain go l1 s1 where body: "listen_body os duration l s = (go, l1, s1)" by (rule prod_cases3)
  show ?case
  proof (cases "stop i \<or> \<not> go")
    case True
    with body show ?thesis by auto
  next
    case False
    with body have p: "running k t0 s1" "w_ix s < w_ix s1" "ms_between t0 (os_now os (w_ix s)) < duration * 1000"
      using body_progress [OF less.prems, of os duration l l1 s1] assms(2) by auto
    have "\<not> N \<le> w_ix s" using p(3) ms_between_ge [OF assms(3) [of "w_ix s"] assms(2)] by auto
    then have lt: "N - w_ix s1 < N - w_ix s" using p(2) by linarith
    then obtain r where "listen_loop os duration stop (Suc (N - w_ix s1)) (Suc i) l1 s1 = Some r"
      using less.hyps p(1) by blast
    then have "listen_loop os duration stop (N - w_ix s) (Suc i) l1 s1 = Some r"
      by (rule listen_loop_more) (use lt in linarith)
    with False body show ?thesis by auto
  qed
qed

lemma loop_stopped:
  "stop j \<Longrightarrow> i \<le> j \<Longrightarrow> \<exists>r. listen_loop os duration stop (Suc (j - i)) i l s = Some r"
proof (induction "j - i" arbitrary: i l s)
  case 0
  then show ?case by simp
next
  case (Suc n)
  obtain go l1 s1 where body: "listen_body os duration l s = (go, l1, s1)" by (rule prod_cases3)
  have "\<exists>r. listen_loop os duration stop (Suc (j - Suc i)) (Suc i) l1 s1 = Some r"
    using Suc.hyps(2) by (intro Suc.hyps(1) Suc.prems(1)) linarith+
  moreover have "Suc (j - Suc i) = j - i" using Suc.hyps(2) by linarith
  ultimately show ?case using body by auto
qed

section \<open>A whole run\<close>

text \<open>The invariant of a run with a capture: the transcript, and how far the script has got.\<close>

definition recorded :: "config \<Rightarrow> listen \<Rightarrow> cli \<Rightarrow> bool" where
  "recorded c l s \<longleftrightarrow> run_ok 0 True l s \<and> session_inv 0 s \<and> s_cfg s = c"

lemma session_inv_outputs [simp]:
  "session_inv k (say x s) = session_inv k s" "session_inv k (cap_line y s) = session_inv k s"
  "session_inv k (cap_note x s) = session_inv k s" "session_inv k (cap_packet d ms bs lab s) = session_inv k s"
  "session_inv k (snd (elapsed_ms os s)) = session_inv k s" "session_inv k (snd (nudge t l s)) = session_inv k s"
proof -
  show say: "session_inv k (say x s) = session_inv k s" for x s by (rule session_inv_cong) (simp_all add: say_def)
  show cap: "session_inv k (cap_line l s) = session_inv k s" for l s by (rule session_inv_cong) (simp_all add: cap_line_def)
  show "session_inv k (cap_note x s) = session_inv k s" "session_inv k (cap_packet d ms bs lab s) = session_inv k s"
    by (simp_all add: cap cap_note_def cap_packet_def)
  show "session_inv k (snd (elapsed_ms os s)) = session_inv k s" by (rule session_inv_cong) simp_all
  show "session_inv k (snd (nudge t l s)) = session_inv k s" by (simp add: nudge_def say)
qed

lemma cfg_outputs [simp]:
  "s_cfg (cap_note x s) = s_cfg s" "s_cfg (cap_packet d ms bs lab s) = s_cfg s" "s_cfg (snd (nudge t l s)) = s_cfg s"
  by (simp_all add: cap_note_def cap_packet_def nudge_def)

lemma packet_session [simp]:
  "session_inv k (snd (on_packet os o' l s)) = session_inv k s" "s_cfg (snd (on_packet os o' l s)) = s_cfg s"
  by (simp_all add: on_packet_def on_battery_def Let_def case_prod_unfold split: option.split)

lemma cfg_step [simp]: "s_cfg (snd (session_step os (cli_hook os) tmo s)) = s_cfg s"
  using capture_hook.cfg_session_do [of os os "DoStep tmo" s] by simp

lemma session_inv_body:
  assumes "session_inv k s" and "listen_body os duration l s = (go, l', s')"
  shows "session_inv k s' \<and> s_cfg s' = s_cfg s"
  using assms(2)
proof (cases rule: listen_body_cases)
  case time_up
  with assms(1) show ?thesis by simp
next
  case (stepped l1 s1 o' s2 s3)
  have s1: "s1 = snd (nudge (fst (elapsed_ms os s)) l (snd (elapsed_ms os s)))" using stepped(2) by simp
  have i1: "session_inv k s1" "s_cfg s1 = s_cfg s" using assms(1) by (simp_all add: s1)
  then have "session_inv k s2" "s_cfg s2 = s_cfg s"
    using capture_hook.session_step_ok(1) [OF i1(1), of os os 500] cfg_step [of os 500 s1] stepped(3)
    by simp_all
  then have "session_inv k s3" "s_cfg s3 = s_cfg s" using stepped(4) by (simp_all split: option.split)
  moreover have "session_inv k s' = session_inv k s3 \<and> s_cfg s' = s_cfg s3" if "on_packet os o' l1 s3 = (l', s')"
    by (metis that packet_session snd_conv)
  ultimately show ?thesis using stepped(5) by (auto split: if_splits)
qed

lemma recorded_loop:
  "recorded c l s \<Longrightarrow> listen_loop os duration stop n i l s = Some (l', s') \<Longrightarrow> recorded c l' s'"
proof (induction n arbitrary: i l s)
  case 0
  then show ?case by simp
next
  case (Suc n)
  obtain go l1 s1 where body: "listen_body os duration l s = (go, l1, s1)" by (rule prod_cases3)
  have "recorded c l1 s1"
    using Suc.prems(1) run_ok_body [OF _ body] session_inv_body [OF _ body] by (auto simp: recorded_def)
  then show ?case using Suc.prems body Suc.IH by (auto split: if_splits)
qed

text \<open>The ends of a run: the file is closed and the session destroyed.\<close>

lemma recorded_end:
  assumes "recorded c l s"
  shows "map e_bytes (entries (CHR ''>'') (cap_close s)) = written (w_trace s)"
    and "recv_ok l (entries (CHR ''<'') (cap_close s))"
    and "prefix (written (w_trace s)) (script c)"
proof -
  obtain R where R: "sends_recorded 0 True R s" "recv_ok l R" using assms by (auto simp: recorded_def run_ok_def)
  have e: "entries d (cap_close s) = entries d s" for d by (simp add: entries_def cap_close_def)
  from R show "map e_bytes (entries (CHR ''>'') (cap_close s)) = written (w_trace s)"
    "recv_ok l (entries (CHR ''<'') (cap_close s))"
    by (simp_all add: e sends_recorded_def since_def)
  have "progress (s_cfg s) (s_phase s) (s_notify_resent s) (since 0 s)" "s_cfg s = c"
    using assms by (auto simp: recorded_def session_inv_def)
  then show "prefix (written (w_trace s)) (script c)"
    using progress_closed [of c "s_phase s" "s_notify_resent s" "since 0 s" False] by (simp add: since_def progress_def)
qed

lemma session_close_capture [simp]:
  fixes s :: cli
  shows "entries d (session_close s) = entries d s" "written (w_trace (session_close s)) = written (w_trace s)"
    "cap_close (session_close s) = session_close (cap_close s)" "w_trace (cap_close s) = w_trace s"
  by (simp_all add: entries_def session_close_def cap_close_def sock_close_def log_ev_def)

definition run_summary :: "cli_options \<Rightarrow> listen \<Rightarrow> cli \<Rightarrow> bool" where
  "run_summary p l s \<longleftrightarrow> map e_bytes (entries (CHR ''>'') s) = written (w_trace s)
     \<and> recv_ok l (entries (CHR ''<'') s) \<and> prefix (written (w_trace s)) (script (cli_config p))"

lemma recorded_summary:
  "recorded (cli_config p) l s \<Longrightarrow> run_summary p l (session_close (cap_close s))"
  using recorded_end [of "cli_config p" l s] by (simp add: run_summary_def)

lemma recorded_note: "recorded c l s \<Longrightarrow> line_ok t \<Longrightarrow> recorded c l (cap_note t s)"
  using run_ok_session [OF _ sends_recorded_note] by (auto simp: recorded_def)

lemma recorded_say [simp]: "recorded c l (say x s) = recorded c l s"
  by (simp add: recorded_def run_ok_def)

lemma recorded_header:
  assumes "recorded c l s" "line_ok mac"
  shows "recorded c l (cap_header t mac ca n q s)"
proof -
  have "recorded c l (fold cap_note ts s')" if "recorded c l s'" "list_all line_ok ts" for ts s'
    using that by (induction ts arbitrary: s') (simp_all add: recorded_note)
  moreover have "list_all line_ok (header_notes t mac ca n q)"
    using assms(2) by (simp add: header_notes_def newline_def iso_time_def)
  ultimately show ?thesis using assms(1) by (simp add: cap_header_notes)
qed

lemma recorded_finish: "recorded (cli_config p) l s \<Longrightarrow> run_summary p l (cli_finish p l s)"
proof -
  assume r: "recorded (cli_config p) l s"
  have n: "line_ok ''end: battery SEEN''" "line_ok ''end: no battery''" by code_simp+
  define s1 where "s1 = say (unlines (result_lines p l)) s"
  define s2 where "s2 = (if cap_open s1 then say (unlines ['''', ''capture written: '' @ cap_path s1,
        ''Upload that file next session -- it is the durable evidence.''])
      (cap_note (if l_battery_seen l then ''end: battery SEEN'' else ''end: no battery'') s1) else s1)"
  define s3 where "s3 = (if \<not> l_battery_seen l then say (unlines no_battery_text) s2 else s2)"
  have "recorded (cli_config p) l s1" using r by (simp add: s1_def)
  then have "recorded (cli_config p) l s2"
    using recorded_note [OF _ n(1)] recorded_note [OF _ n(2)] by (simp add: s2_def del: line_ok_simps(2))
  then have "recorded (cli_config p) l s3" by (simp add: s3_def)
  moreover have "cli_finish p l s = session_close (cap_close s3)"
    unfolding cli_finish_def Let_def s1_def [symmetric] s2_def [symmetric] s3_def [symmetric] ..
  ultimately show ?thesis using recorded_summary by simp
qed

subsection \<open>From the arguments to the loop\<close>

lemma new_cli_sels [simp]:
  "w_trace (new_cli c) = []" "sock_fd (new_cli c) = -1" "s_phase (new_cli c) = Closed" "s_cfg (new_cli c) = c"
  "cap_open (new_cli c) = False" "cap_text (new_cli c) = ''''" "s_notify_resent (new_cli c) = False"
  "is_open (new_cli c) = False"
  by (simp_all add: new_cli_def new_session_def session.defs is_open_def)

lemma capture_open_sels [simp]:
  "w_trace (snd (capture_open o' path s)) = w_trace s" "sock_fd (snd (capture_open o' path s)) = sock_fd s"
  "s_phase (snd (capture_open o' path s)) = s_phase s" "s_cfg (snd (capture_open o' path s)) = s_cfg s"
  "s_notify_resent (snd (capture_open o' path s)) = s_notify_resent s"
  "cap_open (snd (capture_open True path s))" "cap_text (snd (capture_open True path s)) = ''''"
  by (simp_all add: capture_open_def)

lemma prepared_session:
  "w_trace (cli_prepare t opened p) = [] \<and> sock_fd (cli_prepare t opened p) = -1
   \<and> s_phase (cli_prepare t opened p) = Closed \<and> s_cfg (cli_prepare t opened p) = cli_config p"
  by (simp add: cli_prepare_def Let_def say_def cap_note_def)

lemma prepared_recorded:
  assumes "c_want_capture p"
  shows "recorded (cli_config p) new_listen (cli_prepare t True p)"
proof -
  define s1 where "s1 = snd (capture_open True (if c_capture_path p = '''' then default_capture_name t else c_capture_path p)
      (new_cli (cli_config p)))"
  have "readable s1" using exI [of "\<lambda>ls. '''' = unlines ls \<and> list_all line_ok ls" "[]"]
    by (simp add: readable_def s1_def)
  then have "sends_recorded 0 True [] s1"
    by (simp add: sends_recorded_def entries_def transcript_def since_def s1_def List.map_filter_simps)
  moreover have "recv_ok new_listen []" by (simp add: recv_ok_def new_listen_def log_of_def List.map_filter_simps)
  ultimately have r: "recorded (cli_config p) new_listen s1"
    by (auto simp: recorded_def run_ok_def session_inv_def is_open_def progress_def since_def s1_def)
  have n: "line_ok ''handshake skipped''" by code_simp
  show ?thesis
    using r assms recorded_note [OF _ n]
    by (simp add: cli_prepare_def Let_def s1_def [symmetric] del: line_ok_simps(2))
qed

lemma recorded_connect:
  assumes "recorded (cli_config p) new_listen s" and "w_trace s = []" and "\<not> is_open s" and "s_phase s = Closed"
    and "line_ok (c_mac p)" and "cli_connect os t p s = (connected, s')"
  shows "if connected then recorded (cli_config p) new_listen s' else run_summary p new_listen s'"
proof -
  obtain r s1 where o': "session_open os (cli_hook os) (c_mac p) s = (r, s1)" by fastforce
  have "run_ok 0 True new_listen s1"
    using run_ok_session [of 0 True new_listen s s1] capture_monitor.opened [of 0 True _ s os "c_mac p"] assms(1) o'
    by (auto simp: recorded_def)
  moreover have "session_inv 0 s1"
    using capture_hook.session_open_ok(1) [OF assms(3,4), of os os "c_mac p"] assms(2) o' by simp
  moreover have "s_cfg s1 = cli_config p"
    using capture_hook.cfg_session_open [of os os "c_mac p" s] assms(1) o' by (simp add: recorded_def)
  ultimately have r1: "recorded (cli_config p) new_listen s1" by (simp add: recorded_def)
  have n: "line_ok ''connect failed''" by code_simp
  have "run_summary p new_listen (cap_close (session_close (cap_note ''connect failed'' (say x s1))))" for x
    using recorded_summary [OF recorded_note [OF _ n], of p new_listen "say x s1"] r1 by simp
  moreover have "recorded (cli_config p) new_listen
      (say x (cap_header t (c_mac p) (c_caps p) (c_notify p) (c_sequence p) s1))" for x
    using recorded_header [OF r1 assms(5)] by simp
  ultimately show ?thesis
    using assms(6) o' by (auto simp: cli_connect_def split: if_splits)
qed

lemma cli_run_summary:
  assumes "cli_run os t True stop fuel p = Some (code, l, s)" and "c_want_capture p" and "line_ok (c_mac p)"
  shows "run_summary p l s \<and> code = (if 0 < l_count l then 0 else 1)"
proof -
  obtain connected s1 where c: "cli_connect os t p (cli_prepare t True p) = (connected, s1)" by fastforce
  have r: "if connected then recorded (cli_config p) new_listen s1 else run_summary p new_listen s1"
    using recorded_connect [OF prepared_recorded [OF assms(2)] _ _ _ assms(3) c] prepared_session [of t True p]
    by (simp add: is_open_def)
  show ?thesis
  proof (cases connected)
    case False
    with r assms(1) c show ?thesis by (auto simp: cli_run_def new_listen_def)
  next
    case True
    with assms(1) c obtain s2 where loop: "listen_loop os (c_duration p) stop fuel 0 new_listen s1 = Some (l, s2)"
      and e: "s = cli_finish p l s2" "code = (if 0 < l_count l then 0 else 1)"
      by (auto simp: cli_run_def split: option.splits)
    from r True have "recorded (cli_config p) l s2" using recorded_loop [OF _ loop] by simp
    then show ?thesis using recorded_finish e by simp
  qed
qed

lemma connected_running:
  assumes "cli_connect os t p (cli_prepare t opened p) = (True, s)"
  shows "\<exists>k. running k (s_started s) s"
proof -
  let ?s = "cli_prepare t opened p"
  note pr = prepared_session [of t opened p]
  obtain r s1 where o': "session_open os (cli_hook os) (c_mac p) ?s = (r, s1)" by fastforce
  have cl: "\<not> is_open ?s" "s_phase ?s = Closed" using pr by (simp_all add: is_open_def)
  have s: "ok r" "s = say (preamble (c_duration p))
      (cap_header t (c_mac p) (c_caps p) (c_notify p) (c_sequence p) s1)"
    using assms o' by (auto simp: cli_connect_def split: if_splits)
  have "session_inv (length (w_trace ?s)) s1" "is_open s1"
    using capture_hook.session_open_ok [OF cl, of os os "c_mac p"] o' s(1) by simp_all
  then have run: "running (length (w_trace ?s)) (s_started s1) s1" by (simp add: running_def)
  have quiet: "running k t0 (fold cap_note ts s') = running k t0 s'" for k t0 ts s'
    by (induction ts arbitrary: s') simp_all
  have "running (length (w_trace ?s)) (s_started s1) s" using run quiet by (simp add: s(2) cap_header_notes)
  then show ?thesis by (auto simp: running_def)
qed

section \<open>Properties\<close>

text \<open>A run of the sample kernel: two seconds, or stopped at the third pass.\<close>

definition sample_tm :: tm where
  "sample_tm = \<lparr>tm_year = 126, tm_mon = 0, tm_mday = 2, tm_hour = 3, tm_min = 4, tm_sec = 5\<rparr>"

definition sample_cli :: cli_options where
  "sample_cli = default_cli\<lparr>c_mac := ''AA:BB:CC:DD:EE:FF'', c_duration := 2\<rparr>"

text \<open>
  C16: The capture file is a transcript: after a run with a capture, however it ended, reading the
  file back gives, in its lines of direction \<open>>\<close>, exactly the packets the kernel took whole, in
  the order they went out, and these are a beginning of the configured script.
\<close>

theorem transcript_of_sends:
  assumes "cli_run os t True stop fuel p = Some (code, l, s)" and "c_want_capture p" and "line_ok (c_mac p)"
  shows "map e_bytes (filter (\<lambda>e. e_dir e = CHR ''>'') (transcript (cap_text s))) = written (w_trace s)
    \<and> prefix (written (w_trace s)) (script (cli_config p))"
  using cli_run_summary [OF assms] by (simp add: run_summary_def entries_def)

text \<open>
  C17: The summary and the exit code can be computed from the file: the lines of direction \<open><\<close> are
  the packets the loop counted, each with the label of its bytes; the battery table is the
  parse of those that parse, at their times; the tally is over their labels; a battery packet
  was seen exactly when one of them is one; and the program exits with 0 exactly when there is
  one.
\<close>

theorem summary_from_transcript:
  assumes "cli_run os t True stop fuel p = Some (code, l, s)" and "c_want_capture p" and "line_ok (c_mac p)"
  shows "let es = filter (\<lambda>e. e_dir e = CHR ''<'') (transcript (cap_text s)) in
    l_count l = int (length es) \<and> map e_label es = map (opcode_label \<circ> e_bytes) es
    \<and> l_battery_log l = List.map_filter (\<lambda>e. map_option (\<lambda>r. (e_ms e, r)) (parse_battery (e_bytes e))) es
    \<and> l_label_counts l = foldl (\<lambda>m e. bump (e_label e) m) [] es
    \<and> l_battery_seen l = list_ex (\<lambda>e. opcode_of (e_bytes e) = kOpBattery) es
    \<and> code = (if es = [] then 1 else 0)"
  using cli_run_summary [OF assms]
  by (auto simp: run_summary_def recv_ok_def entries_def [symmetric] log_of_def list_all_iff Let_def)

lemma option_all: "Q a \<Longrightarrow> (\<And>v. Q (f v)) \<Longrightarrow> Q (case x of None \<Rightarrow> a | Some v \<Rightarrow> f v)"
  by (cases x) simp_all

text \<open>
  How the arguments can end the program: help on the standard output, or a complaint on the
  standard error with code 2, after which the help may follow.
\<close>

definition explained_exit :: "cli_launch \<Rightarrow> bool" where
  "explained_exit r \<longleftrightarrow>
     (case r of CliExit code out msg \<Rightarrow>
        code = 0 \<and> out = cli_usage \<and> msg = '''' \<or>
        code = 2 \<and> (out = cli_usage \<or> out = '''') \<and> (msg \<noteq> '''' \<or> out = cli_usage)
      | _ \<Rightarrow> True)"

lemma explained_exitI [simp]:
  "explained_exit (CliExit 0 cli_usage '''')" "explained_exit (needs_value what)"
  "explained_exit (CliExit 2 cli_usage msg)" "explained_exit CliUndefined" "explained_exit (CliRun p)"
  "explained_exit (CliExit 2 '''' (unlines (l # ls)))"
  by (simp_all add: explained_exit_def needs_value_def)

lemma cli_args_step:
  "explained_exit (cli_args (arg # rest) p)
   \<or> (\<exists>rest' p'. length rest' \<le> length rest \<and> cli_args (arg # rest) p = cli_args rest' p')"
proof -
  define good where "good r \<longleftrightarrow> explained_exit r
      \<or> (\<exists>rest' p'. length rest' \<le> length rest \<and> r = cli_args rest' p')" for r
  have ends: "good r" if "explained_exit r" for r using that by (simp add: good_def)
  have on: "good (cli_args r q)" if "length r \<le> length rest" for r q using that good_def by blast
  have if_good: "good a \<Longrightarrow> good b \<Longrightarrow> good (if c then a else b)" for a b c by simp
  have list_good: "good a \<Longrightarrow> (\<And>v r. length r \<le> length rest \<Longrightarrow> good (f v r)) \<Longrightarrow>
      good (case rest of [] \<Rightarrow> a | v # r \<Rightarrow> f v r)" for a f
    by (cases rest) simp_all
  have "good (cli_args (arg # rest) p)"
    unfolding cli_args.simps(2)
    by (intro if_good list_good option_all [where Q = good] on explained_exitI [THEN ends]) auto
  then show ?thesis unfolding good_def .
qed

lemma cli_args_explained: "explained_exit (cli_args args p)"
proof (induction args arbitrary: p rule: length_induct)
  case (1 args)
  show ?case
  proof (cases args)
    case Nil
    then show ?thesis by simp
  next
    case (Cons arg rest)
    have IH: "explained_exit (cli_args rest' p')" if "length rest' \<le> length rest" for rest' p'
      using "1.IH" [rule_format, of rest' p'] Cons that by (simp add: less_Suc_eq_le)
    from cli_args_step [of arg rest p] show ?thesis
      using Cons IH by (auto simp del: cli_args.simps)
  qed
qed

lemma launch_explained: "explained_exit (cli_launch_of args)"
  using cli_args_explained [of args default_cli]
  by (auto simp: cli_launch_of_def split: cli_launch.split)

lemma launch_exit_code: "cli_launch_of args = CliExit code out msg \<Longrightarrow> code = 0 \<or> code = 2"
  using launch_explained [of args] by (auto simp: explained_exit_def)

text \<open>The complaint about an unknown option is made about those the help does not name.\<close>

definition cli_unknown :: "string \<Rightarrow> cli_launch" where
  "cli_unknown a = CliExit 2 cli_usage (unlines [''unknown option: '' @ a, ''''])"

lemma cli_rejects:
  assumes "long_option a" "a \<notin> set (options_named cli_usage)"
  shows "cli_args (a # rest) p = cli_unknown a"
proof -
  have "take 2 a = ''--''" using assms(1) by (simp add: long_option_def)
  then have h: "a \<noteq> ''''" "hd a = CHR ''-''" by (cases a, simp_all)+
  have "a \<noteq> ''-h'' \<and> a \<noteq> ''-v''" using assms(1) by (auto simp: long_option_def)
  with assms(2) h show ?thesis by (simp add: cli_options_named cli_unknown_def)
qed

lemma cli_accepts: "a \<in> set (options_named cli_usage) \<Longrightarrow> cli_args [a] p \<noteq> cli_unknown a"
  by (auto simp: cli_options_named cli_unknown_def needs_value_def)

lemma run_ends:
  assumes "0 < c_duration p \<and> (\<forall>T. \<exists>N. \<forall>j \<ge> N. T \<le> os_now os j) \<or> (\<exists>i. stop i)"
  shows "\<exists>n r. \<forall>m \<ge> n. cli_run os t opened stop m p = Some r"
proof -
  obtain connected s where c: "cli_connect os t p (cli_prepare t opened p) = (connected, s)" by fastforce
  show ?thesis
  proof (cases connected)
    case False
    with c show ?thesis by (simp add: cli_run_def)
  next
    case True
    then obtain k where run: "running k (s_started s) s" using connected_running [of os t p opened s] c by auto
    have "\<exists>n l1 s1. listen_loop os (c_duration p) stop n 0 new_listen s = Some (l1, s1)"
    proof (cases "\<exists>i. stop i")
      case True
      then show ?thesis using loop_stopped [where stop = stop and i = 0 and l = new_listen and s = s] by fastforce
    next
      case False
      with assms obtain N where N: "0 < c_duration p"
        "\<And>j. N \<le> j \<Longrightarrow> s_started s + c_duration p * 1000000000 \<le> os_now os j" by meson
      show ?thesis using loop_deadline [OF run N, where stop = stop and i = 0 and l = new_listen] by fastforce
    qed
    then obtain n l1 s1 where n: "listen_loop os (c_duration p) stop n 0 new_listen s = Some (l1, s1)" by blast
    have "cli_run os t opened stop m p = Some (if 0 < l_count l1 then 0 else 1, l1, cli_finish p l1 s1)"
      if "n \<le> m" for m
      using listen_loop_more [OF n that] c True by (simp add: cli_run_def)
    then show ?thesis by blast
  qed
qed

lemma cli_run_code: "cli_run os t opened stop fuel p = Some (code, l, s) \<Longrightarrow> code = 0 \<or> code = 1"
  by (auto simp: cli_run_def split: prod.splits if_splits option.splits)

text \<open>
  C18: The program ends: started on any arguments whose \<open>--duration\<close> is an \<open>int\<close>, it exits with
  code 0, 1 or 2 after finitely many passes of the listening loop, whatever the pods and the
  kernel do, when a duration is set and the clock keeps going, or once Ctrl-C is pressed; more
  passes would not change the code. Arguments it does not take a run from need neither.
\<close>

theorem listening_ends:
  assumes "cli_launch_of args \<noteq> CliUndefined"
    and "\<forall>p. cli_launch_of args = CliRun p \<longrightarrow>
           0 < c_duration p \<and> (\<forall>T. \<exists>N. \<forall>j \<ge> N. T \<le> os_now os j) \<or> (\<exists>i. stop i)"
  shows "\<exists>n code. code \<in> {0, 1, 2} \<and> (\<forall>m \<ge> n. cli_main os t opened stop m args = Ended code)"
proof (cases "cli_launch_of args")
  case (CliExit code out msg)
  with launch_exit_code [OF this] show ?thesis by (auto simp: cli_main_def)
next
  case (CliRun p)
  with assms(2) run_ends [of p os stop t opened]
  obtain n code l s where r: "\<forall>m \<ge> n. cli_run os t opened stop m p = Some (code, l, s)" by auto
  then have "code = 0 \<or> code = 1" using cli_run_code by blast
  moreover have "\<forall>m \<ge> n. cli_main os t opened stop m args = Ended code"
    using r CliRun by (simp add: cli_main_def)
  ultimately show ?thesis by blast
qed (simp add: assms(1))

section \<open>A sample run\<close>

text \<open>
  The pods acknowledge the handshake and the loop is stopped before its second pass. The
  acknowledgement stands in the file after the packet it called for: the hook records what is
  sent at once, the loop records what arrived after the step.
\<close>

definition probe_os :: os where
  "probe_os = sample_os\<lparr>os_write := \<lambda>i. (if i = 6 then 16 else if i = 12 then 14 else 11, 0),
     os_read := \<lambda>i. Inr [0x01, 0x00, 0x04, 0x00]\<rparr>"

lemma probe_run:
  "case cli_run probe_os sample_tm True (\<lambda>i. 1 \<le> i) 2 sample_cli of
     None \<Rightarrow> False
   | Some (code, l, s) \<Rightarrow> code = 0 \<and> map (\<lambda>e. (e_dir e, e_label e)) (transcript (cap_text s)) =
       [(CHR ''>'', ''handshake''), (CHR ''>'', ''host-capabilities''), (CHR ''<'', ''handshake-ack'')]"
  by code_simp

lemma probe_run_result:
  obtains l s where "cli_run probe_os sample_tm True (\<lambda>i. 1 \<le> i) 2 sample_cli = Some (0, l, s)"
    and "map (\<lambda>e. (e_dir e, e_label e)) (transcript (cap_text s)) =
       [(CHR ''>'', ''handshake''), (CHR ''>'', ''host-capabilities''), (CHR ''<'', ''handshake-ack'')]"
  using probe_run by (auto split: option.splits)

lemma sample_cli_ok: "c_want_capture sample_cli" "line_ok (c_mac sample_cli)" "0 < c_duration sample_cli"
  by code_simp+

theorem transcript_of_sends_witness:
  "\<exists>s :: cli. map e_bytes (filter (\<lambda>e. e_dir e = CHR ''>'') (transcript (cap_text s))) = written (w_trace s)
     \<and> length (written (w_trace s)) = 2 \<and> prefix (written (w_trace s)) (script (cli_config sample_cli))"
proof -
  obtain l s where s: "cli_run probe_os sample_tm True (\<lambda>i. 1 \<le> i) 2 sample_cli = Some (0, l, s)"
    "map (\<lambda>e. (e_dir e, e_label e)) (transcript (cap_text s)) =
       [(CHR ''>'', ''handshake''), (CHR ''>'', ''host-capabilities''), (CHR ''<'', ''handshake-ack'')]"
    by (rule probe_run_result)
  note t = transcript_of_sends [OF s(1) sample_cli_ok(1,2)]
  have "length (filter (\<lambda>x. fst x = CHR ''>'') (map (\<lambda>e. (e_dir e, e_label e)) (transcript (cap_text s)))) = 2"
    unfolding s(2) by simp
  then have "length (filter (\<lambda>e. e_dir e = CHR ''>'') (transcript (cap_text s))) = 2"
    by (simp add: filter_map comp_def)
  then have "length (written (w_trace s)) = 2" by (metis t length_map)
  then show ?thesis using t by (intro exI [of _ s] conjI) simp_all
qed

theorem summary_from_transcript_witness:
  "\<exists>l s. cli_run probe_os sample_tm True (\<lambda>i. 1 \<le> i) 2 sample_cli = Some (0, l, s)
     \<and> l_count l = int (length (filter (\<lambda>e. e_dir e = CHR ''<'') (transcript (cap_text s)))) \<and> 0 < l_count l"
proof -
  obtain l s where s: "cli_run probe_os sample_tm True (\<lambda>i. 1 \<le> i) 2 sample_cli = Some (0, l, s)"
    by (rule probe_run_result)
  from summary_from_transcript [OF s sample_cli_ok(1,2)] s show ?thesis by (auto simp: Let_def split: if_splits)
qed

theorem listening_ends_witness:
  "\<exists>n code. code \<in> {0, 1, 2}
     \<and> (\<forall>m \<ge> n. cli_main sample_os sample_tm True (\<lambda>i. False) m [''AA:BB:CC:DD:EE:FF'', ''--duration'', ''5''] = Ended code)"
proof -
  have c: "\<exists>N. \<forall>j \<ge> N. T \<le> os_now sample_os j" for T
  proof -
    have "T \<le> int j * 1000000" if "nat T \<le> j" for j using that by linarith
    then show ?thesis by (auto simp: sample_os_def)
  qed
  have "case cli_launch_of [''AA:BB:CC:DD:EE:FF'', ''--duration'', ''5''] of CliRun p \<Rightarrow> c_duration p = 5 | _ \<Rightarrow> False"
    by code_simp
  then show ?thesis
    using listening_ends [of "[''AA:BB:CC:DD:EE:FF'', ''--duration'', ''5'']" sample_os "\<lambda>i. False" sample_tm True] c
    by (auto split: cli_launch.splits)
qed

end
