(* ===== verification/Extension.thy ===== *)
theory Extension
  imports Tile
begin

text \<open>
  The extension around the tile: the choice of its icon, \<open>enable\<close> and \<open>disable\<close>, at the beginning
  and the end of \<open>extension.js\<close>. An indicator that was disabled is an object that callbacks may
  still reach, so all indicators ever made are kept. The lemmas say that over any number of
  enablings there is never more than one refresh timer, and none while the extension is disabled.
\<close>

section \<open>The icon\<close>

definition ICON_CANDIDATES :: "string list" where
  "ICON_CANDIDATES = [''audio-headphones-symbolic'', ''audio-headset-symbolic'', ''audio-speakers-symbolic'',
     ''audio-card-symbolic'']"

text \<open>
  \<open>theme\<close> is the icon theme, \<open>None\<close> when making it throws; it answers whether it has an icon,
  \<open>None\<close> when asking throws. Every exception is caught and logged.
\<close>

fun first_icon :: "(string \<Rightarrow> bool option) \<Rightarrow> string list \<Rightarrow> string option" where
  "first_icon has_icon [] = None"
| "first_icon has_icon (name # names) =
    (case has_icon name of
       None \<Rightarrow> None
     | Some True \<Rightarrow> Some name
     | Some False \<Rightarrow> first_icon has_icon names)"

definition pick_icon :: "(string \<Rightarrow> bool option) option \<Rightarrow> string" where
  "pick_icon theme =
    (case Option.bind theme (\<lambda>has_icon. first_icon has_icon ICON_CANDIDATES) of
       Some name \<Rightarrow> name
     | None \<Rightarrow> ''image-missing'')"

text \<open>The icon is the first candidate the theme has, if asking for those before it did not throw.\<close>

lemma first_icon_Some:
  "first_icon has_icon names = Some name \<longleftrightarrow>
   (\<exists>before later. names = before @ name # later \<and> has_icon name = Some True \<and> (\<forall>n \<in> set before. has_icon n = Some False))"
proof (induction names)
  case (Cons n names)
  show ?case
  proof
    assume l: "first_icon has_icon (n # names) = Some name"
    then consider "has_icon n = Some True" "name = n" | "has_icon n = Some False" "first_icon has_icon names = Some name"
      by (auto split: option.splits bool.splits)
    then show "\<exists>before later. n # names = before @ name # later \<and> has_icon name = Some True \<and> (\<forall>n \<in> set before. has_icon n = Some False)"
    proof cases
      case 2
      with Cons.IH obtain before later where "names = before @ name # later" "has_icon name = Some True"
        "\<forall>n \<in> set before. has_icon n = Some False" by blast
      with 2 show ?thesis by (intro exI [of _ "n # before"] exI [of _ later]) simp
    qed (intro exI [of _ "[]"] exI [of _ names], simp)
  next
    assume "\<exists>before later. n # names = before @ name # later \<and> has_icon name = Some True \<and> (\<forall>n \<in> set before. has_icon n = Some False)"
    then obtain before later where "n # names = before @ name # later" "has_icon name = Some True"
      "\<forall>n \<in> set before. has_icon n = Some False" by blast
    then show "first_icon has_icon (n # names) = Some name"
      using Cons.IH by (cases before) auto
  qed
qed simp

lemma pick_icon_range: "pick_icon theme \<in> insert ''image-missing'' (set ICON_CANDIDATES)"
proof -
  have "first_icon has_icon names = Some name \<Longrightarrow> name \<in> set names" for has_icon names name
    by (auto simp: first_icon_Some)
  then show ?thesis by (auto simp: pick_icon_def bind_eq_Some_conv split: option.split)
qed

section \<open>Enabling and disabling\<close>

text \<open>
  \<open>x_tiles\<close> are the indicators made so far, each with the icon of its toggle, \<open>x_indicator\<close> the
  number of the present one, and \<open>x_shown\<close> those handed to the Quick Settings panel.
\<close>

record extension =
  x_tiles :: "tile list"
  x_icons :: "string list"
  x_indicator :: "nat option"
  x_shown :: "nat list"

definition new_extension :: extension where
  "new_extension = \<lparr>x_tiles = [], x_icons = [], x_indicator = None, x_shown = []\<rparr>"

definition ext_enable ::
    "(nat \<Rightarrow> nat \<Rightarrow> nat) \<Rightarrow> (string \<Rightarrow> bool option) option \<Rightarrow> nat \<Rightarrow> extension \<Rightarrow> extension" where
  "ext_enable gid theme watch x =
    (let n = length (x_tiles x) in
     x\<lparr>x_tiles := x_tiles x @ [new_tile (gid n) watch], x_icons := x_icons x @ [pick_icon theme],
       x_indicator := Some n, x_shown := x_shown x @ [n]\<rparr>)"

definition ext_disable :: "extension \<Rightarrow> extension" where
  "ext_disable x =
    (case x_indicator x of
       None \<Rightarrow> x
     | Some n \<Rightarrow> x\<lparr>x_tiles := (x_tiles x)[n := tile_destroy (x_tiles x ! n)], x_indicator := None\<rparr>)"

text \<open>
  The Shell enables an extension only while it is disabled. Callbacks reach an indicator by its
  number; it is destroyed by \<open>disable\<close> only.
\<close>

datatype ext_event =
    Enable "(string \<Rightarrow> bool option) option" nat
  | DisableExt
  | ToTile nat "bus_cache \<times> tile_event"

fun ext_handle :: "(nat \<Rightarrow> nat \<Rightarrow> nat) \<Rightarrow> (nat \<Rightarrow> nat) \<Rightarrow> ext_event \<Rightarrow> extension \<Rightarrow> extension" where
  "ext_handle gid hid (Enable theme watch) x = (if x_indicator x = None then ext_enable gid theme watch x else x)"
| "ext_handle gid hid DisableExt x = ext_disable x"
| "ext_handle gid hid (ToTile n ce) x =
    (if n < length (x_tiles x) \<and> snd ce \<noteq> Destroy
     then x\<lparr>x_tiles := (x_tiles x)[n := tile_handle (gid n) hid ce (x_tiles x ! n)]\<rparr> else x)"

section \<open>The invariant\<close>

text \<open>Exactly the present indicator is not cancelled.\<close>

definition ext_inv :: "extension \<Rightarrow> bool" where
  "ext_inv x \<longleftrightarrow>
     (\<forall>n < length (x_tiles x). tile_inv (x_tiles x ! n) \<and> (t_cancelled (x_tiles x ! n) \<longleftrightarrow> x_indicator x \<noteq> Some n)) \<and>
     (\<forall>n. x_indicator x = Some n \<longrightarrow> n < length (x_tiles x)) \<and> length (x_icons x) = length (x_tiles x)"

lemma tile_handle_cancelled:
  "snd ce \<noteq> Destroy \<Longrightarrow> t_cancelled (tile_handle gid hid ce t) \<longleftrightarrow> t_cancelled t"
proof -
  obtain cache e where ce: "ce = (cache, e)" by (cases ce)
  show "snd ce \<noteq> Destroy \<Longrightarrow> ?thesis"
    by (cases e) (simp_all add: ce on_appeared_def on_vanished_def on_proxy_def on_age_def refresh_def Let_def)
qed

lemma new_tile_cancelled: "\<not> t_cancelled (new_tile gid watch)"
  by (simp add: new_tile_def)

lemma tile_destroy_cancelled: "t_cancelled (tile_destroy t)"
  by (simp add: tile_destroy_def Let_def)

lemma tile_inv_destroy: "tile_inv t \<Longrightarrow> tile_inv (tile_destroy t)"
  by (simp add: tile_inv_def tile_destroy_def Let_def)

lemma ext_inv_handle:
  assumes g: "\<forall>n. glib_ids (gid n)" and x: "ext_inv x"
  shows "ext_inv (ext_handle gid hid e x)"
proof (cases e)
  case (Enable theme watch)
  have "tile_inv (new_tile (gid n) watch)" for n using g by (simp add: tile_inv_new)
  then show ?thesis
    using x Enable new_tile_cancelled
    by (auto simp: ext_inv_def ext_enable_def Let_def nth_append less_Suc_eq)
next
  case DisableExt
  then show ?thesis
    using x tile_inv_destroy tile_destroy_cancelled
    by (auto simp: ext_inv_def ext_disable_def nth_list_update split: option.split)
next
  case (ToTile n ce)
  then show ?thesis
    using x g tile_inv_handle tile_handle_cancelled by (auto simp: ext_inv_def nth_list_update)
qed

interpretation ext_events: event_handler "ext_handle gid hid" "\<lambda>x. (\<forall>n. glib_ids (gid n)) \<and> ext_inv x" for gid hid
  by unfold_locales (simp add: ext_inv_handle)

lemma ext_inv_run: "\<forall>n. glib_ids (gid n) \<Longrightarrow> ext_inv (fold (ext_handle gid hid) es new_extension)"
  using ext_events.fold_inv [of gid new_extension hid es] by (simp add: ext_inv_def new_extension_def)

text \<open>The timeout sources of all indicators together.\<close>

definition ext_timers :: "extension \<Rightarrow> nat list" where
  "ext_timers x = concat (map t_live (x_tiles x))"

lemma concat_only:
  "n < length xss \<Longrightarrow> (\<And>i. i < length xss \<Longrightarrow> i \<noteq> n \<Longrightarrow> xss ! i = []) \<Longrightarrow> concat xss = xss ! n"
proof (induction xss arbitrary: n)
  case (Cons xs xss)
  show ?case
  proof (cases n)
    case 0
    have "\<And>i. i < length xss \<Longrightarrow> xss ! i = []" using Cons.prems(2) [of "Suc _"] 0 by simp
    then have "concat xss = []" by (auto simp: in_set_conv_nth)
    with 0 show ?thesis by simp
  next
    case (Suc m)
    have "xs = []" using Cons.prems(2) [of 0] Suc by simp
    moreover have "concat xss = xss ! m"
      using Cons.IH [of m] Cons.prems(1) Cons.prems(2) [of "Suc _"] Suc by simp
    ultimately show ?thesis using Suc by simp
  qed
qed simp

lemma ext_timers_present:
  assumes "ext_inv x"
  shows "ext_timers x = (case x_indicator x of None \<Rightarrow> [] | Some n \<Rightarrow> t_live (x_tiles x ! n))"
proof -
  have gone: "t_live (x_tiles x ! i) = []" if "i < length (x_tiles x)" "x_indicator x \<noteq> Some i" for i
    using assms that by (auto simp: ext_inv_def tile_inv_def)
  show ?thesis
  proof (cases "x_indicator x")
    case None
    then show ?thesis using gone by (auto simp: ext_timers_def in_set_conv_nth)
  next
    case (Some n)
    then have "n < length (x_tiles x)" using assms by (simp add: ext_inv_def)
    then have "concat (map t_live (x_tiles x)) = map t_live (x_tiles x) ! n"
      using gone Some by (intro concat_only) simp_all
    with Some \<open>n < length (x_tiles x)\<close> show ?thesis by (simp add: ext_timers_def)
  qed
qed

section \<open>Properties\<close>

text \<open>
  C25: The refresh timer runs exactly while it is needed: however often the extension is enabled
  and disabled, and whatever callbacks reach the indicators of earlier enablings, there is never
  more than one timeout source over all of them, and there is one exactly while the extension is
  enabled and its tile shows a reading of a daemon that is present with its channel closed, the
  one kind of text that changes by itself.
\<close>

theorem one_refresh_timer:
  assumes "\<forall>n. glib_ids (gid n)" and "x = fold (ext_handle gid hid) es new_extension"
  shows "length (ext_timers x) \<le> 1
    \<and> (ext_timers x \<noteq> [] \<longleftrightarrow> (\<exists>n. x_indicator x = Some n \<and> ageing (t_view (x_tiles x ! n))))"
proof -
  have x: "ext_inv x" unfolding assms(2) by (rule ext_inv_run [OF assms(1)])
  show ?thesis
  proof (cases "x_indicator x")
    case None
    then show ?thesis by (simp add: ext_timers_present [OF x])
  next
    case (Some n)
    then have "tile_inv (x_tiles x ! n)" "\<not> t_cancelled (x_tiles x ! n)" using x by (auto simp: ext_inv_def)
    then show ?thesis using Some by (auto simp: ext_timers_present [OF x] tile_inv_def)
  qed
qed

theorem one_refresh_timer_witness:
  "let c = (\<lambda>k. if k = ''HaveBattery'' then Some (VBoolean True) else None);
       es = [Enable None 1, ToTile 0 (c, Appeared), ToTile 0 (c, ProxyDone True), ToTile 0 (c, AgeDone (Some 252000)), DisableExt,
             Enable None 2, ToTile 1 (c, Appeared), ToTile 1 (c, ProxyDone True), ToTile 1 (c, AgeDone (Some 252000))];
       x = fold (ext_handle (\<lambda>_. Suc) Suc) es new_extension
   in x_indicator x = Some 1 \<and> length (x_tiles x) = 2 \<and> ext_timers x \<noteq> [] \<and> length (ext_timers x) \<le> 1"
proof -
  let ?c = "\<lambda>k. if k = ''HaveBattery'' then Some (VBoolean True) else None"
  let ?es = "[Enable None 1, ToTile 0 (?c, Appeared), ToTile 0 (?c, ProxyDone True), ToTile 0 (?c, AgeDone (Some 252000)), DisableExt,
             Enable None 2, ToTile 1 (?c, Appeared), ToTile 1 (?c, ProxyDone True), ToTile 1 (?c, AgeDone (Some 252000))]"
  let ?x = "fold (ext_handle (\<lambda>_. Suc) Suc) ?es new_extension"
  have "x_indicator ?x = Some 1" "length (x_tiles ?x) = 2" "ageing (t_view (x_tiles ?x ! 1))" by code_simp+
  with one_refresh_timer [OF _ refl, of "\<lambda>_. Suc" Suc ?es] glib_ids_Suc show ?thesis unfolding Let_def by blast
qed

end
