(* ===== verification/Spec2Isabelle.thy ===== *)
theory Spec2Isabelle
  imports Bus_Chain_Runs Cli_Runs Extension
begin

text \<open>
  \<^bold>\<open>Airprobe\<close> keeps a Bluetooth channel open to a pair of AirPods, learns their charge from the
  battery packets they push, and shows it on the session bus and, through BlueZ, in the desktop.
  This development models its C++ code: the library under \<open>src/lib\<close>, the daemon under
  \<open>src/daemon\<close> and the probe command line under \<open>src/cli\<close>; and, as the consumer at the end of
  the chain, the tile of the Shell extension under \<open>src/shell-extension\<close>.

  \<^bold>\<open>The parts and their theories\<close>, in the order the code depends on them:

  \<^item> \<open>Airprobe_Prelude\<close>, \<open>Std_Lib\<close>: machine types, the \<open>printf\<close> conversions the code uses,
    \<open>atoi\<close>, \<open>std::map\<close> with string keys, files of lines, and two contracts used throughout:
    \<open>codec\<close> (reading undoes writing) and \<open>event_handler\<close> (every handler keeps an invariant).
  \<^item> \<open>Aap_Protocol\<close> (\<open>aap_protocol.h\<close>, \<open>aap_protocol.cpp\<close>): packet constants, header tests,
    opcodes, the name tables, labels, hexadecimal texts. Labels equal a classification of packets
    and are never cut by their buffer; the texts can be read back.
  \<^item> \<open>Aap_Battery\<close> (\<open>aap_battery.h\<close>, \<open>aap_battery.cpp\<close>): the battery report and its parser. Every
    read of the packet is checked in the model and proved to be in bounds; the parser equals a
    reference decoder, refuses exactly the malformed packets, and undoes an encoder.
  \<^item> \<open>Aap_Socket\<close> (\<open>aap_socket.h\<close>, \<open>aap_socket.cpp\<close>): the L2CAP socket. The kernel is a record
    \<open>os\<close> of answers indexed by the number of calls made (\<open>w_ix\<close>), and \<open>w_trace\<close> lists the calls
    that matter. A connect ends open or explained, and no descriptor is leaked or closed twice.
  \<^item> \<open>Session\<close> (\<open>session.h\<close>, \<open>session.cpp\<close>): the handshake state machine with its timeouts, the
    re-send, the cache and the packet hook. The locale \<open>packet_hook\<close> is what the session expects
    of the consumer's hook. What goes out is a beginning of one script, phases only advance, the
    cache is what the parser accepted.
  \<^item> \<open>Session_Monitor\<close>: a locale for properties that every primitive of the session keeps; used
    for descriptors, for the passing of time and for the transcript.
  \<^item> \<open>Daemon_State\<close> (\<open>state.h\<close>, and the part of GLib's main loop the daemon uses), \<open>Bluez_Watch\<close>
    (\<open>bluez_watch.h\<close>, \<open>bluez_watch.cpp\<close>), \<open>Pump\<close> and \<open>Pump_Runs\<close> (\<open>pump.h\<close>, \<open>pump.cpp\<close>): snapshots,
    timeout sources, the BlueZ watch, and the pump that owns session and watch. Reachable states
    are an inductive predicate over all events in any order. Ticks run exactly while the channel
    is open, retries are bounded, and what is published is current and truthful.
  \<^item> \<open>Dbus_Service\<close> (\<open>dbus_service.h\<close>, \<open>dbus_service.cpp\<close>): properties, variants, change detection
    and signals. A subscriber is never out of date. It implements the locale \<open>publisher\<close>.
  \<^item> \<open>Battery_Provider\<close> (\<open>battery_provider.h\<close>, \<open>battery_provider.cpp\<close>): registration with BlueZ,
    the one derived number, the exported object. BlueZ's view of the object tree follows it.
  \<^item> \<open>Introspection\<close>: the interfaces the daemon declares, as the XML in \<open>dbus_service.cpp\<close> and
    \<open>battery_provider.cpp\<close> with a reader of it, and the types of D-Bus as an inductive relation.
    Every answer has the declared type, and the battery object a legal path and our device.
  \<^item> \<open>Help_Texts\<close>, \<open>Airprobed\<close> (\<open>daemon/src/main.cpp\<close>): arguments with what they print, wiring and
    shutdown of the daemon. The options accepted are the ones the help names.
  \<^item> \<open>Capture\<close>, \<open>Cli\<close>, \<open>Cli_Runs\<close> (\<open>cli/src/main.cpp\<close>): the capture file and its reader; arguments,
    hook, listening loop, printed text, summary and exit code; the proofs about whole runs.
  \<^item> \<open>Tile_Format\<close>, \<open>Tile\<close> (\<open>format.js\<close>, \<open>extension.js\<close>): the words on the Quick Settings tile, and
    the indicator with its proxy, its asynchronous reads and its refresh timer. A level is shown
    exactly when there is one, an age only when it was just read, and the timer runs exactly
    while a text can age.
  \<^item> \<open>Extension\<close> (\<open>extension.js\<close>): the icon, and enabling and disabling any number of times.
  \<^item> \<open>Bus_Chain\<close>, \<open>Bus_Chain_Runs\<close>: the daemon and the tile joined by the session bus, where requests,
    replies and signals are queues and take time. A visible tile is a picture of the daemon at one
    moment, and it catches up once the bus has settled; \<open>traffic\<close> bounds the rounds this takes.
  \<^item> this theory: the properties of the whole daemon, and of the chain from a packet to the buses.

  \<^bold>\<open>How state and operations correspond.\<close> A class is a record with a field per data member, named
  with a short prefix, and a method is a function that returns the new state; a derived consumer
  extends the record (\<open>session\<close> extends \<open>aap_socket\<close>, \<open>cli\<close> extends \<open>session\<close>), so that hooks can
  change the consumer's part only. Callbacks, timers and signals of GLib and BlueZ are events,
  and an asynchronous call is a count of calls in flight with an event for its completion.
  What the code sends out (snapshots, signals, printed text) is collected in a field of the
  state. Failing calls are values of a sum or option type, and every early return is a branch.

  \<^bold>\<open>Inputs of the model.\<close> The kernel's and the clock's answers (\<open>os\<close>), GLib's source identifiers
  (\<open>gid\<close>, assumed positive and distinct: \<open>glib_ids\<close>), BlueZ's replies (\<open>managed option\<close>), the
  registrations' results, \<open>localtime\<close>, \<open>fopen\<close>, Ctrl-C and the icon theme. Of the session bus
  \<open>Bus_Chain\<close> uses that one sender's messages arrive in order and that calls are answered.
  \<open>paths_ok\<close> says that BlueZ's objects have non-empty paths. For the probe the address given is
  assumed to be one line.

  \<^bold>\<open>Bounds and fuel.\<close> Bytes, opcodes and poll bits are words; counters of type \<open>int\<close> and times of
  type \<open>long long\<close> are integers, since their overflow would be undefined behaviour and would take
  more packets than a session can receive; \<open>atoi\<close> out of range is such a case and has a value of
  its own. The parser's and the hexdump's loops end by a measure. The listening loop takes fuel,
  one unit per pass; \<open>listening_ends\<close> says when some fuel is enough, and that more changes nothing.

  \<^bold>\<open>Not modelled.\<close> Log lines of spdlog, which no state depends on; results of writing to an open
  capture file and of emitting a signal, which the code ignores or only logs; error texts of
  D-Bus calls; how the Shell lays out its widgets; the death and restart of the daemon under a
  tile that is reading (\<open>Bus_Chain\<close> follows one life of the daemon; \<open>Tile\<close> takes its vanishing at
  any time); the build and install scripts.
\<close>

section \<open>The whole daemon\<close>

text \<open>An example run: BlueZ accepts the provider, the bus is acquired, and the pods report.\<close>

definition sample_daemon :: daemon where
  "sample_daemon = fold (daemon_handle sample_os Suc sample_answers)
     [ProviderAppeared (Some sample_objects), ProviderRegisterDone True, BusAcquired 3,
      ToPump (Fire 1 None), ToPump (Fire 1 None), ToPump (Fire 1 None)]
     (daemon_start sample_os Suc sample_answers True 1 (Some sample_objects) sample_options True)"

lemma sample_reachable: "daemon_reachable sample_os Suc sample_answers sample_options sample_daemon"
  unfolding sample_daemon_def by (rule daemon_reachable_fold [OF daemon_reachable.started])

lemma sample_values:
  "map_option bp_exported (d_provider sample_daemon) = Some True
   \<and> map_option bp_percentage (d_provider sample_daemon) = Some 94
   \<and> v_have_battery (ds_state (d_service sample_daemon))"
  by code_simp



text \<open>
  C3: The number the desktop shows is current: whenever the battery object is announced to
  BlueZ, the channel to the pods is open at this moment, the percentage is the lower of the
  pods in the present reading and at most 100, and the provider is registered.
\<close>

theorem desktop_number_current:
  assumes "daemon_reachable os gid ba opts d" and "glib_ids gid" and "\<not> o_self_test opts"
    and "d_provider d = Some p" and "bp_exported p"
  shows "(\<exists>s. p_session (d_pump d) = Some s \<and> is_open s)
    \<and> bp_percentage p = Min (pod_levels (snapshot (d_pump d))) \<and> bp_percentage p \<le> 100 \<and> bp_registered p"
proof -
  have ok: "provider_ok (snapshot (d_pump d)) p" by (rule daemon_provider [OF assms(1-4)])
  have "state_truthful (snapshot (d_pump d))"
    by (rule snapshot_truthful_reachable [OF daemon_reachable_pump [OF assms(1)] assms(3)])
  moreover have "finite (pod_levels (snapshot (d_pump d)))" by (simp add: pod_levels_def)
  ultimately have "Min (pod_levels (snapshot (d_pump d))) \<le> 100"
    using ok assms(5) pod_levels_range Min_in by (auto simp: provider_ok_def showable_def)
  then show ?thesis
    using ok assms(5) by (auto simp: provider_ok_def provider_inv_def showable_def snapshot_channel_open)
qed

theorem desktop_number_current_witness:
  "\<exists>p. d_provider sample_daemon = Some p \<and> bp_percentage p = 94 \<and> (94 :: u8) \<le> 100
     \<and> Min (pod_levels (snapshot (d_pump sample_daemon))) = 94"
proof -
  obtain p where p: "d_provider sample_daemon = Some p" "bp_exported p" "bp_percentage p = 94"
    using sample_values by auto
  from desktop_number_current [OF sample_reachable glib_ids_Suc no_self_test p(1,2)] p show ?thesis by simp
qed



text \<open>
  C22: Invented numbers never reach the desktop: with \<open>--self-test\<close>, whatever happens, there is
  no battery provider and no session, and every snapshot says in its status that it is a self
  test.
\<close>

theorem self_test_stays_off_desktop:
  assumes "daemon_reachable os gid ba opts d" and "o_self_test opts"
  shows "d_provider d = None \<and> p_session (d_pump d) = None
    \<and> list_all (\<lambda>v. v_status v = ''SELF TEST -- synthetic data, not a reading'') (p_out (d_pump d))"
proof -
  have "self_test_inv gid opts (d_pump d)"
    using daemon_reachable_pump [OF assms(1)]
  proof (induction rule: pump_reachable.induct)
    case (started bus reply)
    show ?case by (rule self_test_start [OF assms(2)])
  next
    case (handled p e)
    show ?case by (rule self_test_handle [OF handled.IH])
  qed
  then show ?thesis
    using self_test_no_provider [OF assms]
    by (auto simp: self_test_inv_def self_test_first_def self_test_second_def self_test_base_def)
qed

theorem self_test_stays_off_desktop_witness:
  "d_provider (daemon_start sample_os Suc sample_answers True 1 None (sample_options\<lparr>o_self_test := True\<rparr>) True) = None"
  using self_test_stays_off_desktop [OF daemon_reachable.started] by simp

text \<open>
  The daemon is launched only with an address (from the arguments, or else from the
  environment, arguments first) unless it is a self test, and with a positive tick; everything
  else ends with an exit code before anything is opened.
\<close>

theorem launched_with_address:
  assumes "launch_of args env = Launch opts b"
  shows "0 < o_tick_ms opts \<and> o_tick_ms opts < 2 ^ 31 \<and> (o_mac opts \<noteq> '''' \<or> o_self_test opts)"
  using launch_of_Launch [OF assms] by simp

theorem launched_with_address_witness:
  "\<exists>opts. launch_of [''--tick-ms'', ''250'', ''-v''] (Some ''AA:BB:CC:DD:EE:FF'') = Launch opts True
     \<and> 0 < o_tick_ms opts \<and> o_mac opts = ''AA:BB:CC:DD:EE:FF''"
proof -
  let ?o = "\<lparr>o_mac = ''AA:BB:CC:DD:EE:FF'', o_tick_ms = 250, o_verbose = True, o_self_test = False\<rparr>"
  have l: "launch_of [''--tick-ms'', ''250'', ''-v''] (Some ''AA:BB:CC:DD:EE:FF'') = Launch ?o True"
    by code_simp
  from launched_with_address [OF l] l show ?thesis by auto
qed

text \<open>
  C24: Stopping the daemon releases what it holds, whatever it was doing: the session's channel is
  closed and every descriptor the kernel ever handed out has been closed exactly once; the bus
  object, the name and the introspection data are released; the watch gives back its name watch,
  its three subscriptions and the system bus; and no tick or rescan is left to fire. Only a pending retry survives, whose callback the ended loop no longer runs.
\<close>

theorem stop_releases:
  assumes "daemon_reachable os gid ba opts d" and "glib_ids gid" and "\<not> o_self_test opts"
    and "ba_owner ba \<noteq> 0"
  shows "(\<exists>s. p_session (d_pump (daemon_stop d)) = Some s \<and> \<not> is_open s
             \<and> fds_opened (w_trace s) = fds_closed (w_trace s))
    \<and> ds_destroy (d_service d) =
        (if exported (d_service d) then [UnregisterObject (ds_reg_id (d_service d))] else [])
        @ [UnownName (ba_owner ba), UnrefNode]
    \<and> (\<forall>w. p_watch (d_pump d) = Some w \<longrightarrow> filter (\<lambda>x. \<forall>i. x \<noteq> RemoveRescan i) (bw_release w) =
          [UnwatchName, UnsubscribeProps, UnsubscribeAdded, UnsubscribeRemoved, UnrefSystemBus])
    \<and> list_all (\<lambda>(i, src). kind_of src = KRetry) (l_live (p_loop (d_pump (daemon_stop d))))"
proof -
  note r = daemon_reachable_pump [OF assms(1)]
  obtain s where s: "p_session (d_pump d) = Some s" "fds_balanced s"
    using pump_reachable_published [OF r assms(3)]
    by (auto simp: published_ok_def session_good_def session_kept_def)
  have "fds_balanced (session_close s)" by (rule logging_hook.fds.close [OF s(2)])
  then have c: "\<not> is_open (session_close s)
      \<and> fds_opened (w_trace (session_close s)) = fds_closed (w_trace (session_close s))"
    by (simp add: fds_balanced_def is_open_def)
  have w: "pump_wired gid {} (d_pump d)" and st: "\<not> o_self_test (p_opts (d_pump d))"
    using pump_reachable_inv [OF r assms(2,3)] by (simp_all add: pump_inv_def)
  have "list_all (\<lambda>(i, src). kind_of src = KRetry) (l_live (p_loop (pump_destroy (d_pump d))))"
    using pump_destroy_live [OF assms(2) w st] by (auto simp: list_all_iff)
  moreover have "ds_node (d_service d)" "ds_owner_id (d_service d) = ba_owner ba"
    using daemon_service_held [OF assms(1)] by (simp_all add: ds_held_def)
  moreover have "filter (\<lambda>x. \<forall>i. x \<noteq> RemoveRescan i) (bw_release w) =
      [UnwatchName, UnsubscribeProps, UnsubscribeAdded, UnsubscribeRemoved, UnrefSystemBus]"
    if "p_watch (d_pump d) = Some w" for w
    using pump_reachable_watch [OF r] that by (simp add: watch_started_def bw_release_def)
  ultimately show ?thesis
    using c s(1) assms(4) by (auto simp: daemon_stop_def pump_destroy_session ds_destroy_def exported_def)
qed

theorem stop_releases_witness:
  "ds_destroy (d_service sample_daemon) = [UnregisterObject 3, UnownName 1, UnrefNode]"
proof -
  have "ba_owner sample_answers = 1" by (simp add: sample_answers_def)
  moreover have "exported (d_service sample_daemon)" "ds_reg_id (d_service sample_daemon) = 3" by code_simp+
  ultimately show ?thesis using stop_releases [OF sample_reachable glib_ids_Suc no_self_test] by simp
qed


text \<open>The sample daemon before the tick that receives the battery packet.\<close>

definition before_packet :: daemon where
  "before_packet = fold (daemon_handle sample_os Suc sample_answers)
     [ProviderAppeared (Some sample_objects), ProviderRegisterDone True, BusAcquired 3,
      ToPump (Fire 1 None), ToPump (Fire 1 None)]
     (daemon_start sample_os Suc sample_answers True 1 (Some sample_objects) sample_options True)"

lemma before_values:
  "let d = d_pump before_packet; x = session_step sample_os (pump_hook (o_verbose (p_opts d))) 0 (the (p_session d))
   in map_of (l_live (p_loop d)) 1 = Some (TickTimer 200) \<and> p_session d \<noteq> None
     \<and> st_packet (fst x) \<and> \<not> st_closed (fst x) \<and> st_bytes (fst x) = sample_packet
     \<and> \<not> v_have_battery (snapshot d)"
  by code_simp



lemma waiting_values:
  "let c = waiting_chain; d = d_pump (ch_daemon c);
       x = session_step sample_os (pump_hook (o_verbose (p_opts d))) 0 (the (p_session d))
   in exported (d_service (ch_daemon c)) \<and> watching (ch_tile c) \<and> \<not> f_visible (t_face (ch_tile c))
     \<and> map_of (l_live (p_loop d)) 1 = Some (TickTimer 200) \<and> p_session d \<noteq> None
     \<and> st_packet (fst x) \<and> \<not> st_closed (fst x) \<and> st_bytes (fst x) = sample_packet"
  by code_simp


text \<open>
  At the moment of drawing: when the tile draws itself from a proxy that is up to date, it is
  visible; the accent is on exactly while the channel is open and there is a reading; the
  warning is on exactly when a battery packet was refused or a component had unexpected framing;
  and if a pod gave a reading, the line reads its percentage, with a dash for a pod that gave
  none, preceded by the age exactly when the channel is closed. Every percentage is the raw byte
  of that pod in a packet the parser accepted.
\<close>

theorem tile_shows_channel:
  assumes "daemon_reachable os gid ba opts d" and "glib_ids gid" and "\<not> o_self_test opts"
    and "\<forall>k \<in> set signalled. cache k = get_property None (ds_state (d_service d)) k"
    and "t_proxy t \<noteq> None" "\<not> t_cancelled t" "0 < t_reading t"
    and "daemon_get_property os ''BatteryAgeMs'' d = Inr (VInt64 age)"
    and "face = t_face (tile_handle tgid hid (cache, AgeDone (Some age)) t)" and "v = snapshot (d_pump d)"
  shows "f_visible face \<and> age = pump_battery_age_ms os (d_pump d)
    \<and> (f_checked face \<longleftrightarrow> v_channel_open v \<and> v_have_battery v)
    \<and> (f_warning face \<longleftrightarrow> 0 < v_parse_refusals v \<or> list_ex (\<lambda>(k, c). cv_framing_anomaly c) (v_components v))
    \<and> (pod_levels v \<noteq> {} \<longrightarrow> f_subtitle face =
        (if v_channel_open v then '''' else format_age (Some age) @ '' '' @ SEP @ '' '')
        @ ''L '' @ pod_text (pod_level v ''left'') @ '' '' @ SEP @ '' R '' @ pod_text (pod_level v ''right''))
    \<and> (\<forall>k l. pod_level v k = Some l \<longrightarrow> l \<le> 100 \<and> (\<exists>packet r x. parse_battery packet = Some r
        \<and> x \<in> set (components r) \<and> component_name (component x) = k \<and> level x = Some l \<and> raw_level x = l))"
proof -
  have v: "v = ds_state (d_service d)" using daemon_on_bus(2) [OF assms(1-3)] assms(10) by simp
  have "face = toggle_render (view_of_state True age v)"
    using assms(4-7) tile_view_up_to_date [of cache v "t\<lparr>t_reading := t_reading t - 1, t_age_ms := age\<rparr>"]
    by (simp add: assms(9) on_age_def v)
  then have "face_tells face age v" using picture_tells [OF reachable_truthful [OF assms(1,3)]] assms(10) by simp
  moreover have "age = pump_battery_age_ms os (d_pump d)"
    using assms(8) by (simp add: daemon_get_property_def get_property_trampoline_def get_property_def)
  ultimately show ?thesis
    using pod_level_source [OF assms(1,3)] unfolding assms(10) face_tells_def by blast
qed

theorem tile_shows_channel_witness:
  "let cache = get_property None (ds_state (d_service sample_daemon));
       t = fold (tile_handle Suc Suc) (map (Pair cache) [Appeared, ProxyDone True]) (new_tile Suc 1);
       face = t_face (tile_handle Suc Suc (cache, AgeDone (Some (pump_battery_age_ms sample_os (d_pump sample_daemon)))) t)
   in f_visible face \<and> f_checked face \<and> f_subtitle face = ''L 96% '' @ SEP @ '' R 94%''"
proof -
  let ?cache = "get_property None (ds_state (d_service sample_daemon))"
  let ?t = "fold (tile_handle Suc Suc) (map (Pair ?cache) [Appeared, ProxyDone True]) (new_tile Suc 1)"
  let ?age = "pump_battery_age_ms sample_os (d_pump sample_daemon)"
  let ?v = "snapshot (d_pump sample_daemon)"
  have t: "t_proxy ?t \<noteq> None" "\<not> t_cancelled ?t" "0 < t_reading ?t"
    by (simp_all add: new_tile_def on_appeared_def on_proxy_def refresh_def Let_def)
  have a: "daemon_get_property sample_os ''BatteryAgeMs'' sample_daemon = Inr (VInt64 ?age)"
    by (simp add: daemon_get_property_def get_property_trampoline_def get_property_def)
  have c: "\<forall>k \<in> set signalled. ?cache k = get_property None (ds_state (d_service sample_daemon)) k" by simp
  note T = tile_shows_channel [OF sample_reachable glib_ids_Suc no_self_test c t a refl refl]
  have "let v = ?v in pod_level v ''left'' = Some 96 \<and> pod_level v ''right'' = Some 94 \<and> v_channel_open v \<and> v_have_battery v"
    by code_simp
  then have "pod_level ?v ''left'' = Some 96" "pod_level ?v ''right'' = Some 94" "v_channel_open ?v" "v_have_battery ?v"
    unfolding Let_def by blast+
  moreover have "pod_text (Some 96) = ''96%''" "pod_text (Some 94) = ''94%''" by code_simp+
  ultimately show ?thesis using T unfolding Let_def pod_levels_def by simp
qed

text \<open>
  C31: Both programs explain why they do not start. Arguments end the probe with code 0 and the help
  text, or with code 2 and a complaint or the help text; they end the daemon likewise; and the
  long options complained about as unknown are exactly the ones the help does not name, except
  that the daemon also calls \<open>--tick-ms\<close> unknown when its value is missing.
\<close>

theorem arguments_explained:
  assumes "long_option a"
  shows "explained_exit (cli_launch_of args) \<and> explained_code (launch_of args env)
    \<and> (cli_args [a] p = cli_unknown a \<longleftrightarrow> a \<notin> set (options_named cli_usage))
    \<and> (parse_args [a] opts b = daemon_unknown a \<longleftrightarrow> a \<notin> set (options_named daemon_usage) \<or> a = ''--tick-ms'')"
  using launch_explained launch_of_explained cli_rejects [OF assms] cli_accepts daemon_rejects [OF assms]
    daemon_accepts by blast

theorem arguments_explained_witness:
  "cli_args [''--tick-ms''] default_cli = cli_unknown ''--tick-ms''
   \<and> parse_args [''--capture''] default_options True = daemon_unknown ''--capture''
   \<and> parse_args [''--tick-ms''] default_options True = daemon_unknown ''--tick-ms''"
proof -
  have "long_option ''--tick-ms''" "long_option ''--capture''" by code_simp+
  note A = arguments_explained [OF this(1)] and B = arguments_explained [OF this(2)]
  have "''--tick-ms'' \<notin> set (options_named cli_usage)" "''--capture'' \<notin> set (options_named daemon_usage)"
    by (simp_all add: cli_options_named daemon_options_named)
  with A B show ?thesis by blast
qed

end
